theory Spec2Isabelle
  imports Main "HOL-Library.Word" "HOL-Library.AList"
begin

unbundle bit_operations_syntax

section \<open>Feature flag evaluator (class FeatureFlagsManager)\<close>

text \<open>
  The TypeScript class keeps four private members: \<^verbatim>\<open>flags\<close> (a Map from flag name to
  its configuration), \<^verbatim>\<open>userContext\<close>, \<^verbatim>\<open>errorCounts\<close> and \<^verbatim>\<open>listeners\<close>. A JavaScript
  Map iterates in insertion order, \<^verbatim>\<open>set\<close> on a present key keeps its position and on
  a new key appends, so each Map is an association list read with \<^const>\<open>map_of\<close> and
  written with \<^const>\<open>AList.update\<close> and \<^const>\<open>AList.delete\<close>.

  An optional property of an interface is an \<open>option\<close>. Dates are instants in
  milliseconds; \<^verbatim>\<open>new Date()\<close> is the parameter \<open>now\<close> of the functions that read the
  clock. A listener is a callback: a function object with an identity and with what it
  does when it is called, which here is to call unsubscribe functions of the manager (a
  callback is taken to return normally). Calling it with a boolean appends the pair of its
  identity and the boolean to the member \<open>calls\<close>, the trace of listener invocations.
  Strings are lists of \<^typ>\<open>char\<close>, so the code units the hash reads range over 0..255.
\<close>

record FeatureFlagConfig =
  enabled :: bool
  rolloutPercentage :: "int option"
  userSegments :: "string list option"
  startDate :: "int option"
  endDate :: "int option"
  dependencies :: "string list option"
  rollbackOnError :: "bool option"
  description :: "string option"

record UserContext =
  userId :: "string option"
  isPaidUser :: bool
  isAdmin :: bool
  isDeveloper :: bool
  createdAt :: int
  lastLogin :: int

text \<open>
  \<open>CallsUnsubscribe flagName ident\<close>: the callback calls the function that
  \<^verbatim>\<open>onFlagChange(flagName, cb)\<close> returned for the callback \<open>cb\<close> of identity \<open>ident\<close>.
\<close>

datatype callbackAction = CallsUnsubscribe string nat

datatype listener = Callback (callbackId: nat) (callbackActions: "callbackAction list")

record FeatureFlagsManager =
  flags :: "(string \<times> FeatureFlagConfig) list"
  userContext :: "UserContext option"
  errorCounts :: "(string \<times> nat) list"
  listeners :: "(string \<times> listener list) list"
  calls :: "(nat \<times> bool) list"

text \<open>
  \<^verbatim>\<open>Partial<FeatureFlagConfig>\<close>, the second argument of \<^verbatim>\<open>updateFlag\<close>: every key may be
  absent (\<open>None\<close>); a present key carries the value that the object spread copies,
  which for an optional property may itself be \<^verbatim>\<open>undefined\<close> (\<open>Some None\<close>).
\<close>

record PartialConfig =
  p_enabled :: "bool option"
  p_rolloutPercentage :: "int option option"
  p_userSegments :: "string list option option"
  p_startDate :: "int option option"
  p_endDate :: "int option option"
  p_dependencies :: "string list option option"
  p_rollbackOnError :: "bool option option"
  p_description :: "string option option"

definition flag :: "bool \<Rightarrow> string \<Rightarrow> FeatureFlagConfig" where
  "flag e d = \<lparr>enabled = e, rolloutPercentage = None, userSegments = None,
     startDate = None, endDate = None, dependencies = None, rollbackOnError = None,
     description = Some d\<rparr>"

definition defaultFlags :: "(string \<times> FeatureFlagConfig) list" where
  "defaultFlags =
    [(''BASIC_AUTH'', flag True ''User authentication system''),
     (''DONATION_TRACKING'', flag True ''Core donation tracking functionality''),
     (''CHARITY_SEARCH'', flag True ''Charity search and selection''),
     (''MONEY_DONATIONS'', (flag True ''Cash/check donations'')\<lparr>rollbackOnError := Some True\<rparr>),
     (''ITEMS_DONATIONS'',
        (flag True ''Item donations with valuation'')\<lparr>rollbackOnError := Some True\<rparr>),
     (''MILEAGE_DONATIONS'',
        (flag True ''Mileage-based donations'')\<lparr>rollbackOnError := Some True\<rparr>),
     (''STOCK_DONATIONS'',
        (flag True ''Stock and securities donations'')\<lparr>rollbackOnError := Some True\<rparr>),
     (''CRYPTO_DONATIONS'',
        (flag True ''Cryptocurrency donations'')\<lparr>rollbackOnError := Some True\<rparr>),
     (''STOCK_PRICING_API'',
        (flag True ''Real-time stock price lookup'')
          \<lparr>dependencies := Some [''STOCK_DONATIONS''], rollbackOnError := Some True\<rparr>),
     (''CRYPTO_PRICING_API'',
        (flag True ''Real-time crypto price lookup'')
          \<lparr>dependencies := Some [''CRYPTO_DONATIONS''], rollbackOnError := Some True\<rparr>),
     (''CHARITY_AUTOCOMPLETE'',
        (flag True ''Type-ahead charity search'')
          \<lparr>dependencies := Some [''CHARITY_SEARCH''], rollbackOnError := Some True\<rparr>),
     (''ADVANCED_REPORTS'',
        (flag True ''Detailed tax reports'')\<lparr>userSegments := Some [''paid'', ''admin'']\<rparr>),
     (''FILE_UPLOADS'',
        (flag True ''Receipt file uploads'')\<lparr>userSegments := Some [''paid'', ''admin'']\<rparr>),
     (''DATA_EXPORT'',
        (flag True ''CSV/PDF export'')\<lparr>userSegments := Some [''paid'', ''admin'']\<rparr>),
     (''TAX_OPTIMIZATION_TOOLS'',
        (flag True ''Tax planning tools'')\<lparr>userSegments := Some [''paid'', ''admin'']\<rparr>),
     (''ADMIN_PANEL'',
        (flag True ''Administrative interface'')\<lparr>userSegments := Some [''admin'']\<rparr>),
     (''USER_MANAGEMENT'',
        (flag True ''User account management'')\<lparr>userSegments := Some [''admin'']\<rparr>),
     (''CHARITY_VERIFICATION'',
        (flag True ''Charity verification system'')\<lparr>userSegments := Some [''admin'']\<rparr>),
     (''SYSTEM_MONITORING'',
        (flag True ''System health monitoring'')\<lparr>userSegments := Some [''admin'']\<rparr>),
     (''PAYMENT_ENFORCEMENT'', flag False ''Enforce donation limits for free users''),
     (''STRIPE_PAYMENTS'',
        (flag True ''Stripe payment processing'')\<lparr>rollbackOnError := Some True\<rparr>),
     (''LICENSE_UPGRADES'',
        (flag True ''License upgrade flow'')
          \<lparr>dependencies := Some [''STRIPE_PAYMENTS'', ''PAYMENT_ENFORCEMENT''],
           rollbackOnError := Some True\<rparr>),
     (''NEW_DASHBOARD_UI'',
        (flag False ''Redesigned dashboard interface'')
          \<lparr>rolloutPercentage := Some 10, rollbackOnError := Some True\<rparr>),
     (''AI_TAX_SUGGESTIONS'',
        (flag False ''AI-powered tax optimization suggestions'')
          \<lparr>rolloutPercentage := Some 5, rollbackOnError := Some True\<rparr>),
     (''BULK_IMPORT'',
        (flag False ''Bulk donation import from CSV'')
          \<lparr>rolloutPercentage := Some 25, userSegments := Some [''paid'', ''admin'']\<rparr>),
     (''MOBILE_APP_INTEGRATION'',
        (flag False ''Mobile app connectivity'')\<lparr>rolloutPercentage := Some 0\<rparr>),
     (''DEVELOPER_TOOLS'',
        (flag False ''Development debugging tools'')\<lparr>userSegments := Some [''developer'']\<rparr>),
     (''PERFORMANCE_MONITORING'', flag True ''Performance monitoring and metrics''),
     (''ERROR_REPORTING'', flag True ''Error reporting and logging'')]"

text \<open>
  \<^verbatim>\<open>initializeDefaultFlags\<close> stores every default entry into the manager's flag map, in
  the order of the object literal.
\<close>

definition initializeDefaultFlags :: "FeatureFlagsManager \<Rightarrow> FeatureFlagsManager" where
  "initializeDefaultFlags this =
     this\<lparr>flags := foldl (\<lambda>fl (key, config). AList.update key config fl) (flags this) defaultFlags\<rparr>"

definition setUserContext :: "UserContext \<Rightarrow> FeatureFlagsManager \<Rightarrow> FeatureFlagsManager" where
  "setUserContext context this = this\<lparr>userContext := Some context\<rparr>"

subsection \<open>The rollout hash\<close>

text \<open>
  \<^verbatim>\<open>hashUserId\<close> folds \<^verbatim>\<open>hash = ((hash << 5) - hash) + char; hash = hash & hash\<close> over the
  code units of \<^verbatim>\<open>userId + "_" + flagName\<close>. The shift and the bitwise and convert to a
  signed 32-bit integer, so every round is arithmetic on a 32-bit word; \<^verbatim>\<open>Math.abs\<close> is
  taken on the signed reading, as a number (the absolute value of \<open>- 2^31\<close> is \<open>2^31\<close>).
\<close>

definition hashStep :: "32 word \<Rightarrow> char \<Rightarrow> 32 word" where
  "hashStep hash c = (push_bit 5 hash - hash) + word_of_nat (of_char c)"

definition hashUserId :: "string \<Rightarrow> string \<Rightarrow> int" where
  "hashUserId uid flagName = \<bar>sint (foldl hashStep 0 (uid @ ''_'' @ flagName))\<bar>"

subsection \<open>isEnabled\<close>

definition isCoreFlag :: "string \<Rightarrow> bool" where
  "isCoreFlag flagName =
     (flagName = ''BASIC_AUTH'' \<or> flagName = ''DONATION_TRACKING'' \<or> flagName = ''CHARITY_SEARCH'')"

text \<open>
  The loop \<^verbatim>\<open>for (const dep of config.dependencies) if (!this.isEnabled(dep)) return false\<close>,
  over the evaluation \<open>f\<close> of one flag. \<open>None\<close> is a call that does not return.
\<close>

fun allDependenciesEnabled :: "(string \<Rightarrow> bool option) \<Rightarrow> string list \<Rightarrow> bool option" where
  "allDependenciesEnabled f [] = Some True"
| "allDependenciesEnabled f (dep # deps) =
     Option.bind (f dep) (\<lambda>b. if \<not> b then Some False else allDependenciesEnabled f deps)"

text \<open>The callback of \<^verbatim>\<open>config.userSegments.some(...)\<close>.\<close>

definition inSegment :: "UserContext \<Rightarrow> string \<Rightarrow> bool" where
  "inSegment ctx segment =
     (if segment = ''paid'' then isPaidUser ctx
      else if segment = ''admin'' then isAdmin ctx
      else if segment = ''developer'' then isDeveloper ctx
      else False)"

text \<open>
  \<^verbatim>\<open>!this.userContext?.userId\<close>: no context, no identifier or the empty string.
\<close>

definition currentUserId :: "FeatureFlagsManager \<Rightarrow> string option" where
  "currentUserId this =
     (case userContext this of None \<Rightarrow> None
      | Some ctx \<Rightarrow> (case userId ctx of None \<Rightarrow> None
                     | Some uid \<Rightarrow> if uid = [] then None else Some uid))"

text \<open>
  The part of \<^verbatim>\<open>isEnabled\<close> after the dependency loop: the segment check and the
  percentage rollout.
\<close>

definition segmentsAndRollout :: "FeatureFlagsManager \<Rightarrow> string \<Rightarrow> FeatureFlagConfig \<Rightarrow> bool" where
  "segmentsAndRollout this flagName config =
     (if (case (userSegments config, userContext this) of
            (Some segs, Some ctx) \<Rightarrow> \<not> list_ex (inSegment ctx) segs
          | _ \<Rightarrow> False)
      then False
      else (case rolloutPercentage config of
              None \<Rightarrow> True
            | Some pct \<Rightarrow>
                if pct < 100
                then (case currentUserId this of
                        None \<Rightarrow> False
                      | Some uid \<Rightarrow> hashUserId uid flagName mod 100 < pct)
                else True))"

lemma allDependenciesEnabled_mono [partial_function_mono]:
  assumes "\<And>d. mono_option (\<lambda>f. B f d)"
  shows "mono_option (\<lambda>f. allDependenciesEnabled (B f) deps)"
proof (induction deps)
  case Nil
  show ?case by (simp add: option.const_mono)
next
  case (Cons d deps)
  show ?case
    unfolding allDependenciesEnabled.simps
    by (intro partial_function_mono assms Cons)
qed

text \<open>
  \<^verbatim>\<open>isEnabled\<close> calls itself on every dependency and the source has no guard against a
  cyclic dependency graph, so it is a partial function: \<open>None\<close> is the call that never
  returns a boolean.
\<close>

partial_function (option) isEnabled :: "FeatureFlagsManager \<Rightarrow> int \<Rightarrow> string \<Rightarrow> bool option" where
  "isEnabled this now flagName =
     (case map_of (flags this) flagName of
        None \<Rightarrow> Some False
      | Some config \<Rightarrow>
          if isCoreFlag flagName then Some True
          else if \<not> enabled config then Some False
          else if (case startDate config of None \<Rightarrow> False | Some s \<Rightarrow> now < s) then Some False
          else if (case endDate config of None \<Rightarrow> False | Some e \<Rightarrow> now > e) then Some False
          else Option.bind
                 (case dependencies config of
                    None \<Rightarrow> Some True
                  | Some deps \<Rightarrow> allDependenciesEnabled (isEnabled this now) deps)
                 (\<lambda>depsEnabled.
                    if \<not> depsEnabled then Some False
                    else Some (segmentsAndRollout this flagName config)))"

subsection \<open>getEnabledFlags\<close>

definition flagNames :: "string list" where
  "flagNames =
    [''BASIC_AUTH'', ''DONATION_TRACKING'', ''CHARITY_SEARCH'',
     ''MONEY_DONATIONS'', ''ITEMS_DONATIONS'', ''MILEAGE_DONATIONS'', ''STOCK_DONATIONS'',
     ''CRYPTO_DONATIONS'',
     ''STOCK_PRICING_API'', ''CRYPTO_PRICING_API'', ''CHARITY_AUTOCOMPLETE'',
     ''ADVANCED_REPORTS'', ''FILE_UPLOADS'', ''DATA_EXPORT'', ''TAX_OPTIMIZATION_TOOLS'',
     ''ADMIN_PANEL'', ''USER_MANAGEMENT'', ''CHARITY_VERIFICATION'', ''SYSTEM_MONITORING'',
     ''PAYMENT_ENFORCEMENT'', ''STRIPE_PAYMENTS'', ''LICENSE_UPGRADES'',
     ''NEW_DASHBOARD_UI'', ''AI_TAX_SUGGESTIONS'', ''BULK_IMPORT'', ''MOBILE_APP_INTEGRATION'',
     ''DEVELOPER_TOOLS'', ''PERFORMANCE_MONITORING'', ''ERROR_REPORTING'']"

text \<open>
  The object \<^verbatim>\<open>enabledFlags\<close> is filled key by key; a call of \<^verbatim>\<open>isEnabled\<close> that does not
  return leaves \<^verbatim>\<open>getEnabledFlags\<close> without a result.
\<close>

definition enabledEntry :: "FeatureFlagsManager \<Rightarrow> int \<Rightarrow> string \<Rightarrow> (string \<times> bool) option" where
  "enabledEntry this now flagName =
     (if isCoreFlag flagName then Some (flagName, True)
      else map_option (Pair flagName) (isEnabled this now flagName))"

definition getEnabledFlags :: "FeatureFlagsManager \<Rightarrow> int \<Rightarrow> (string \<times> bool) list option" where
  "getEnabledFlags this now = those (map (enabledEntry this now) flagNames)"

subsection \<open>updateFlag, updateFlags, reportError, onFlagChange\<close>

text \<open>The object spread \<^verbatim>\<open>{ ...currentConfig, ...config }\<close>: a present key overrides.\<close>

definition spread :: "FeatureFlagConfig \<Rightarrow> PartialConfig \<Rightarrow> FeatureFlagConfig" where
  "spread c p =
     \<lparr>enabled = (case p_enabled p of None \<Rightarrow> enabled c | Some v \<Rightarrow> v),
      rolloutPercentage = (case p_rolloutPercentage p of None \<Rightarrow> rolloutPercentage c | Some v \<Rightarrow> v),
      userSegments = (case p_userSegments p of None \<Rightarrow> userSegments c | Some v \<Rightarrow> v),
      startDate = (case p_startDate p of None \<Rightarrow> startDate c | Some v \<Rightarrow> v),
      endDate = (case p_endDate p of None \<Rightarrow> endDate c | Some v \<Rightarrow> v),
      dependencies = (case p_dependencies p of None \<Rightarrow> dependencies c | Some v \<Rightarrow> v),
      rollbackOnError = (case p_rollbackOnError p of None \<Rightarrow> rollbackOnError c | Some v \<Rightarrow> v),
      description = (case p_description p of None \<Rightarrow> description c | Some v \<Rightarrow> v)\<rparr>"

text \<open>The literal \<^verbatim>\<open>{ enabled: false }\<close> that stands in for a missing configuration.\<close>

definition onlyDisabled :: FeatureFlagConfig where
  "onlyDisabled = \<lparr>enabled = False, rolloutPercentage = None, userSegments = None,
     startDate = None, endDate = None, dependencies = None, rollbackOnError = None,
     description = None\<rparr>"

text \<open>The partial configuration \<^verbatim>\<open>{ enabled }\<close>.\<close>

definition onlyEnabled :: "bool \<Rightarrow> PartialConfig" where
  "onlyEnabled b = \<lparr>p_enabled = Some b, p_rolloutPercentage = None, p_userSegments = None,
     p_startDate = None, p_endDate = None, p_dependencies = None, p_rollbackOnError = None,
     p_description = None\<rparr>"

definition listenersOf :: "FeatureFlagsManager \<Rightarrow> string \<Rightarrow> listener list" where
  "listenersOf this flagName =
     (case map_of (listeners this) flagName of None \<Rightarrow> [] | Some ls \<Rightarrow> ls)"

definition updatedConfig :: "FeatureFlagsManager \<Rightarrow> string \<Rightarrow> PartialConfig \<Rightarrow> FeatureFlagConfig" where
  "updatedConfig this flagName config =
     spread (case map_of (flags this) flagName of None \<Rightarrow> onlyDisabled | Some c \<Rightarrow> c) config"

text \<open>
  \<^verbatim>\<open>onFlagChange\<close> pushes the callback onto the flag's listener array. The function it
  returns looks the callback up with \<^verbatim>\<open>indexOf\<close> and splices the first occurrence out of
  that same array.
\<close>

definition onFlagChange :: "string \<Rightarrow> listener \<Rightarrow> FeatureFlagsManager \<Rightarrow> FeatureFlagsManager" where
  "onFlagChange flagName callback this =
     this\<lparr>listeners := AList.update flagName (listenersOf this flagName @ [callback]) (listeners this)\<rparr>"

fun spliceOut :: "nat \<Rightarrow> listener list \<Rightarrow> listener list" where
  "spliceOut ident [] = []"
| "spliceOut ident (l # ls) = (if callbackId l = ident then ls else l # spliceOut ident ls)"

definition unsubscribe :: "string \<Rightarrow> nat \<Rightarrow> FeatureFlagsManager \<Rightarrow> FeatureFlagsManager" where
  "unsubscribe flagName ident this =
     (case map_of (listeners this) flagName of
        None \<Rightarrow> this
      | Some ls \<Rightarrow> this\<lparr>listeners := AList.update flagName (spliceOut ident ls) (listeners this)\<rparr>)"

text \<open>A call \<^verbatim>\<open>listener(enabled)\<close>: the call is recorded, then the callback runs.\<close>

fun act :: "FeatureFlagsManager \<Rightarrow> callbackAction \<Rightarrow> FeatureFlagsManager" where
  "act this (CallsUnsubscribe flagName ident) = unsubscribe flagName ident this"

definition invoke :: "listener \<Rightarrow> bool \<Rightarrow> FeatureFlagsManager \<Rightarrow> FeatureFlagsManager" where
  "invoke l e this = foldl act (this\<lparr>calls := calls this @ [(callbackId l, e)]\<rparr>) (callbackActions l)"

text \<open>
  \<^verbatim>\<open>listeners.forEach(listener => listener(updatedConfig.enabled))\<close>. \<^verbatim>\<open>forEach\<close> reads the
  length of the array once and then visits the indices \<open>0, 1, ...\<close> below it, calling the
  callback for every index that the array still has when its turn comes. The array is the
  one stored in the manager, so a callback that splices it shifts the later entries down.
  \<open>forEachFrom remaining k\<close> is the loop at index \<open>k\<close> with \<open>remaining\<close> indices to go.
\<close>

fun forEachFrom :: "nat \<Rightarrow> nat \<Rightarrow> string \<Rightarrow> bool \<Rightarrow> FeatureFlagsManager \<Rightarrow> FeatureFlagsManager" where
  "forEachFrom 0 k flagName e this = this"
| "forEachFrom (Suc remaining) k flagName e this =
     forEachFrom remaining (Suc k) flagName e
       (if k < length (listenersOf this flagName)
        then invoke (listenersOf this flagName ! k) e this
        else this)"

definition updateFlag :: "string \<Rightarrow> PartialConfig \<Rightarrow> FeatureFlagsManager \<Rightarrow> FeatureFlagsManager" where
  "updateFlag flagName config this =
     (let updated = updatedConfig this flagName config;
          stored = this\<lparr>flags := AList.update flagName updated (flags this)\<rparr>
      in forEachFrom (length (listenersOf stored flagName)) 0 flagName (enabled updated) stored)"

definition updateFlags :: "(string \<times> bool) list \<Rightarrow> FeatureFlagsManager \<Rightarrow> FeatureFlagsManager" where
  "updateFlags fs this = foldl (\<lambda>m (flagName, e). updateFlag flagName (onlyEnabled e) m) this fs"

definition errorCount :: "FeatureFlagsManager \<Rightarrow> string \<Rightarrow> nat" where
  "errorCount this flagName =
     (case map_of (errorCounts this) flagName of None \<Rightarrow> 0 | Some n \<Rightarrow> n)"

definition reportError :: "string \<Rightarrow> FeatureFlagsManager \<Rightarrow> FeatureFlagsManager" where
  "reportError flagName this =
     (case map_of (flags this) flagName of
        None \<Rightarrow> this
      | Some config \<Rightarrow>
          if rollbackOnError config \<noteq> Some True then this
          else
            let currentCount = errorCount this flagName;
                counted = this\<lparr>errorCounts :=
                            AList.update flagName (currentCount + 1) (errorCounts this)\<rparr>
            in if currentCount \<ge> 10
               then (let rolled = updateFlag flagName (onlyEnabled False) counted
                     in rolled\<lparr>errorCounts := AList.delete flagName (errorCounts rolled)\<rparr>)
               else counted)"

text \<open>The constructor: the defaults, then \<^verbatim>\<open>updateFlags(initialFlags)\<close> when given.\<close>

definition emptyManager :: FeatureFlagsManager where
  "emptyManager = \<lparr>flags = [], userContext = None, errorCounts = [], listeners = [], calls = []\<rparr>"

definition newFeatureFlagsManager :: "(string \<times> bool) list option \<Rightarrow> FeatureFlagsManager" where
  "newFeatureFlagsManager initialFlags =
     (case initialFlags of
        None \<Rightarrow> initializeDefaultFlags emptyManager
      | Some fs \<Rightarrow> updateFlags fs (initializeDefaultFlags emptyManager))"

text \<open>The public mutators, as the commands a caller can issue on a manager.\<close>

datatype flagCommand =
    UpdateFlag string PartialConfig
  | UpdateFlags "(string \<times> bool) list"
  | ReportError string
  | SetUserContext UserContext
  | OnFlagChange string listener
  | Unsubscribe string nat

fun perform :: "FeatureFlagsManager \<Rightarrow> flagCommand \<Rightarrow> FeatureFlagsManager" where
  "perform this (UpdateFlag n p) = updateFlag n p this"
| "perform this (UpdateFlags fs) = updateFlags fs this"
| "perform this (ReportError n) = reportError n this"
| "perform this (SetUserContext ctx) = setUserContext ctx this"
| "perform this (OnFlagChange n l) = onFlagChange n l this"
| "perform this (Unsubscribe n l) = unsubscribe n l this"

section \<open>Service errors (class ServiceError)\<close>

text \<open>
  Of a \<^verbatim>\<open>ServiceError\<close> the registry and the error boundary read the taxonomy code, the
  severity, the \<^verbatim>\<open>recoverable\<close> flag and the owning module; the message text, the
  time stamp, the random error identifier and the context bag are left out.
\<close>

datatype ErrorSeverity = low | medium | high | critical

record ServiceError =
  code :: string
  severity :: ErrorSeverity
  recoverable :: bool
  moduleId :: string

definition registryError :: "string \<Rightarrow> ErrorSeverity \<Rightarrow> bool \<Rightarrow> ServiceError" where
  "registryError c s r = \<lparr>code = c, severity = s, recoverable = r, moduleId = ''ServiceRegistry''\<rparr>"

section \<open>Service registry (class ServiceRegistry)\<close>

text \<open>
  A service class is what the registry can observe of it: whether its constructor or its
  \<^verbatim>\<open>initialize\<close> throws (the latter may depend on the argument), what \<^verbatim>\<open>isHealthy\<close>
  answers (\<open>None\<close>: it throws) and whether \<^verbatim>\<open>shutdown\<close> throws. An instance is an
  object with an identity, taken from the counter \<open>nextObjectId\<close>; the calls made on
  service objects are appended to \<open>serviceCalls\<close>.

  \<^verbatim>\<open>replace\<close> passes the bare configuration to \<^verbatim>\<open>initialize\<close>, \<^verbatim>\<open>createInstance\<close> passes
  the resolved dependencies together with the configuration.
\<close>

type_synonym Config = "(string \<times> string) list"

datatype InitArgument =
    BareConfig Config
  | WithDependencies "(string \<times> nat) list" Config

record Implementation =
  className :: string
  constructorThrows :: bool
  initializeThrows :: "InitArgument \<Rightarrow> bool"
  isHealthy :: "bool option"
  shutdownThrows :: bool

record ServiceInstance =
  objectId :: nat
  madeBy :: Implementation

datatype ServiceCall =
    Constructed nat string
  | InitializeCalled nat
  | IsHealthyCalled nat
  | ShutdownCalled nat

text \<open>
  \<^verbatim>\<open>ServiceRegistration\<close>; the member \<^verbatim>\<open>instance\<close> is \<open>liveInstance\<close> and the member
  \<^verbatim>\<open>dependencies\<close> is \<open>serviceDependencies\<close> here. The two time stamps are left out.
\<close>

record ServiceRegistration =
  token :: string
  implementation :: Implementation
  liveInstance :: "ServiceInstance option"
  serviceDependencies :: "string list"
  config :: Config
  singleton :: bool

record ServiceRegistry =
  services :: "(string \<times> ServiceRegistration) list"
  initializationOrder :: "string list"
  isShuttingDown :: bool
  nextObjectId :: nat
  serviceCalls :: "ServiceCall list"

definition newServiceRegistry :: ServiceRegistry where
  "newServiceRegistry = \<lparr>services = [], initializationOrder = [], isShuttingDown = False,
     nextObjectId = 0, serviceCalls = []\<rparr>"

record RegisterOptions =
  opt_dependencies :: "string list option"
  opt_config :: "Config option"
  opt_singleton :: "bool option"

definition register ::
  "string \<Rightarrow> Implementation \<Rightarrow> RegisterOptions \<Rightarrow> ServiceRegistry \<Rightarrow> ServiceError + ServiceRegistry"
where
  "register tok impl options this =
     (if map_of (services this) tok \<noteq> None
      then Inl (registryError ''SERVICE_ALREADY_REGISTERED'' medium False)
      else Inr (this\<lparr>services := AList.update tok
                  \<lparr>token = tok, implementation = impl, liveInstance = None,
                   serviceDependencies = (case opt_dependencies options of None \<Rightarrow> [] | Some ds \<Rightarrow> ds),
                   config = (case opt_config options of None \<Rightarrow> [] | Some c \<Rightarrow> c),
                   singleton = (opt_singleton options \<noteq> Some False)\<rparr>
                  (services this)\<rparr>))"

text \<open>
  \<^verbatim>\<open>new C()\<close> followed by \<^verbatim>\<open>await x.initialize(arg)\<close>, the two statements that both
  \<^verbatim>\<open>createInstance\<close> and \<^verbatim>\<open>replace\<close> run inside their \<^verbatim>\<open>try\<close>: \<open>None\<close> when one of them
  throws.
\<close>

definition instantiate ::
  "Implementation \<Rightarrow> InitArgument \<Rightarrow> ServiceRegistry \<Rightarrow> ServiceInstance option \<times> ServiceRegistry"
where
  "instantiate impl arg this =
     (if constructorThrows impl then (None, this)
      else
        let obj = \<lparr>objectId = nextObjectId this, madeBy = impl\<rparr>;
            this' = this\<lparr>nextObjectId := Suc (nextObjectId this),
                         serviceCalls := serviceCalls this @
                           [Constructed (objectId obj) (className impl), InitializeCalled (objectId obj)]\<rparr>
        in if initializeThrows impl arg then (None, this') else (Some obj, this'))"

definition storeInstance :: "string \<Rightarrow> ServiceInstance option \<Rightarrow> ServiceRegistry \<Rightarrow> ServiceRegistry" where
  "storeInstance tok i this =
     this\<lparr>services := AList.map_entry tok (\<lambda>r. r\<lparr>liveInstance := i\<rparr>) (services this)\<rparr>"

text \<open>
  \<^verbatim>\<open>get\<close> and \<^verbatim>\<open>createInstance\<close> call each other through the loop over the dependencies
  and nothing in them bounds the recursion. The first argument is fuel: it bounds the
  nesting depth of \<^verbatim>\<open>get\<close>, and the result \<open>None\<close> says that the depth was not enough. A
  call returns (a value or a thrown \<^verbatim>\<open>ServiceError\<close>) iff some amount of fuel gives
  \<open>Some\<close>.
\<close>

type_synonym 'a outcome = "((ServiceError + 'a) \<times> ServiceRegistry) option"

fun get :: "nat \<Rightarrow> string \<Rightarrow> ServiceRegistry \<Rightarrow> ServiceInstance outcome"
  and createInstance :: "nat \<Rightarrow> ServiceRegistration \<Rightarrow> ServiceRegistry \<Rightarrow> ServiceInstance outcome"
  and resolveDependencies ::
    "nat \<Rightarrow> string list \<Rightarrow> (string \<times> nat) list \<Rightarrow> ServiceRegistry \<Rightarrow> ((string \<times> nat) list) outcome"
where
  "get 0 tok this = None"
| "get (Suc fuel) tok this =
     (case map_of (services this) tok of
        None \<Rightarrow> Some (Inl (registryError ''SERVICE_NOT_FOUND'' high False), this)
      | Some registration \<Rightarrow>
          if singleton registration \<and> liveInstance registration \<noteq> None
          then Some (Inr (the (liveInstance registration)), this)
          else (case createInstance fuel registration this of
                  None \<Rightarrow> None
                | Some (Inl e, this') \<Rightarrow> Some (Inl e, this')
                | Some (Inr i, this') \<Rightarrow>
                    Some (Inr i, if singleton registration then storeInstance tok (Some i) this'
                                 else this')))"
| "createInstance fuel registration this =
     (case resolveDependencies fuel (serviceDependencies registration) [] this of
        None \<Rightarrow> None
      | Some (Inl e, this') \<Rightarrow>
          Some (Inl (registryError ''SERVICE_CREATION_FAILED'' high True), this')
      | Some (Inr deps, this') \<Rightarrow>
          (case instantiate (implementation registration)
                  (WithDependencies deps (config registration)) this' of
             (None, this'') \<Rightarrow>
               Some (Inl (registryError ''SERVICE_CREATION_FAILED'' high True), this'')
           | (Some i, this'') \<Rightarrow> Some (Inr i, this'')))"
| "resolveDependencies fuel [] deps this = Some (Inr deps, this)"
| "resolveDependencies fuel (depToken # rest) deps this =
     (case get fuel depToken this of
        None \<Rightarrow> None
      | Some (Inl e, this') \<Rightarrow> Some (Inl e, this')
      | Some (Inr i, this') \<Rightarrow>
          resolveDependencies fuel rest (AList.update depToken (objectId i) deps) this')"

subsection \<open>resolveDependencyOrder\<close>

text \<open>
  The closure \<^verbatim>\<open>visit\<close> over the sets \<^verbatim>\<open>visited\<close> and \<^verbatim>\<open>visiting\<close> and the array
  \<^verbatim>\<open>order\<close>. \<^verbatim>\<open>visited\<close> and \<^verbatim>\<open>order\<close> are threaded through the calls. \<^verbatim>\<open>visiting\<close> is
  passed down: a call adds its token before it visits the dependencies and deletes it
  afterwards, and the token was not in the set when the call began (the call would have
  thrown), so a call that returns leaves the set as it found it. A token that is not
  registered has no dependencies and is appended to the order like any other.
\<close>

function visit ::
    "(string \<times> ServiceRegistration) list \<Rightarrow> string set \<Rightarrow> string \<Rightarrow> string set \<times> string list
      \<Rightarrow> ServiceError + string set \<times> string list"
  and visitEach ::
    "(string \<times> ServiceRegistration) list \<Rightarrow> string set \<Rightarrow> string list \<Rightarrow> string set \<times> string list
      \<Rightarrow> ServiceError + string set \<times> string list"
where
  "visit svcs visiting tok (visited, order) =
     (if tok \<in> visited then Inr (visited, order)
      else if tok \<in> visiting then Inl (registryError ''CIRCULAR_DEPENDENCY'' critical False)
      else (case (case map_of svcs tok of
                    None \<Rightarrow> Inr (visited, order)
                  | Some registration \<Rightarrow>
                      visitEach svcs (insert tok visiting) (serviceDependencies registration)
                        (visited, order)) of
              Inl e \<Rightarrow> Inl e
            | Inr (visited', order') \<Rightarrow> Inr (insert tok visited', order' @ [tok])))"
| "visitEach svcs visiting [] acc = Inr acc"
| "visitEach svcs visiting (dep # rest) acc =
     (case visit svcs visiting dep acc of
        Inl e \<Rightarrow> Inl e
      | Inr acc' \<Rightarrow> visitEach svcs visiting rest acc')"
  by pat_completeness auto
termination
proof (relation "measures
    [\<lambda>x. case x of Inl (svcs, visiting, tok, acc) \<Rightarrow> card (fst ` set svcs - visiting)
                  | Inr (svcs, visiting, toks, acc) \<Rightarrow> card (fst ` set svcs - visiting),
     \<lambda>x. case x of Inl (svcs, visiting, tok, acc) \<Rightarrow> 0
                  | Inr (svcs, visiting, toks, acc) \<Rightarrow> Suc (length toks)]")
  show "wf (measures
    [\<lambda>x. case x of Inl (svcs, visiting, tok, acc) \<Rightarrow> card (fst ` set svcs - visiting)
                  | Inr (svcs, visiting, toks, acc) \<Rightarrow> card (fst ` set svcs - visiting),
     \<lambda>x. case x of Inl (svcs, visiting, tok, acc) \<Rightarrow> 0
                  | Inr (svcs, visiting, toks, acc) \<Rightarrow> Suc (length toks)])"
    by simp
next
  fix svcs :: "(string \<times> ServiceRegistration) list" and visiting :: "string set"
    and tok :: string and registration :: ServiceRegistration
  assume "tok \<notin> visiting" and "map_of svcs tok = Some registration"
  then have "tok \<in> fst ` set svcs - visiting"
    by (auto dest!: map_of_SomeD intro: rev_image_eqI)
  then have "card (fst ` set svcs - insert tok visiting) < card (fst ` set svcs - visiting)"
    by (intro psubset_card_mono) auto
  then show "(Inr (svcs, insert tok visiting, serviceDependencies registration, a, b),
          Inl (svcs, visiting, tok, c, d)) \<in> measures
    [\<lambda>x. case x of Inl (svcs, visiting, tok, acc) \<Rightarrow> card (fst ` set svcs - visiting)
                  | Inr (svcs, visiting, toks, acc) \<Rightarrow> card (fst ` set svcs - visiting),
     \<lambda>x. case x of Inl (svcs, visiting, tok, acc) \<Rightarrow> 0
                  | Inr (svcs, visiting, toks, acc) \<Rightarrow> Suc (length toks)]" for a b c d
    by simp
qed auto

definition resolveDependencyOrder :: "ServiceRegistry \<Rightarrow> ServiceError + string list" where
  "resolveDependencyOrder this =
     (case visitEach (services this) {} (map fst (services this)) ({}, []) of
        Inl e \<Rightarrow> Inl e
      | Inr (visited, order) \<Rightarrow> Inr order)"

subsection \<open>initializeAll, replace, shutdown\<close>

definition isCriticalService :: "string \<Rightarrow> bool" where
  "isCriticalService tok = (tok \<in> set [''AUTH_SERVICE'', ''CONFIG_SERVICE'', ''ERROR_HANDLER''])"

text \<open>The loop of \<^verbatim>\<open>initializeAll\<close> over the resolved order.\<close>

fun initializeEach :: "nat \<Rightarrow> string list \<Rightarrow> ServiceRegistry \<Rightarrow> unit outcome" where
  "initializeEach fuel [] this = Some (Inr (), this)"
| "initializeEach fuel (tok # rest) this =
     (case get fuel tok this of
        None \<Rightarrow> None
      | Some (Inl e, this') \<Rightarrow>
          if isCriticalService tok
          then Some (Inl (registryError ''CRITICAL_SERVICE_INIT_FAILED'' critical False), this')
          else initializeEach fuel rest this'
      | Some (Inr i, this') \<Rightarrow> initializeEach fuel rest this')"

definition initializeAll :: "nat \<Rightarrow> ServiceRegistry \<Rightarrow> unit outcome" where
  "initializeAll fuel this =
     (case resolveDependencyOrder this of
        Inl e \<Rightarrow> Some (Inl e, this)
      | Inr order \<Rightarrow> initializeEach fuel order (this\<lparr>initializationOrder := order\<rparr>))"

text \<open>
  \<^verbatim>\<open>notifyDependents\<close>: the tokens whose registration lists the replaced token, then for
  each of them, inside a \<^verbatim>\<open>try\<close> whose \<^verbatim>\<open>catch\<close> only logs, the shutdown of the live
  instance, the clearing of the cache and a fresh \<^verbatim>\<open>get\<close>.
\<close>

definition callShutdown :: "ServiceInstance \<Rightarrow> ServiceRegistry \<Rightarrow> ServiceRegistry" where
  "callShutdown i this = this\<lparr>serviceCalls := serviceCalls this @ [ShutdownCalled (objectId i)]\<rparr>"

fun reinitializeEach :: "nat \<Rightarrow> string list \<Rightarrow> ServiceRegistry \<Rightarrow> ServiceRegistry option" where
  "reinitializeEach fuel [] this = Some this"
| "reinitializeEach fuel (dependent # rest) this =
     (case map_of (services this) dependent of
        None \<Rightarrow> reinitializeEach fuel rest this
      | Some registration \<Rightarrow>
          (case liveInstance registration of
             None \<Rightarrow> reinitializeEach fuel rest this
           | Some i \<Rightarrow>
               if shutdownThrows (madeBy i) then reinitializeEach fuel rest (callShutdown i this)
               else (case get fuel dependent (storeInstance dependent None (callShutdown i this)) of
                       None \<Rightarrow> None
                     | Some (r, this') \<Rightarrow> reinitializeEach fuel rest this')))"

definition notifyDependents :: "nat \<Rightarrow> string \<Rightarrow> ServiceRegistry \<Rightarrow> ServiceRegistry option" where
  "notifyDependents fuel tok this =
     reinitializeEach fuel
       (map fst (filter (\<lambda>(serviceToken, registration). tok \<in> set (serviceDependencies registration))
                   (services this)))
       this"

definition replaceRegistration ::
  "string \<Rightarrow> Implementation \<Rightarrow> Config option \<Rightarrow> ServiceRegistry \<Rightarrow> ServiceRegistry"
where
  "replaceRegistration tok newImplementation cfg this =
     this\<lparr>services := AList.map_entry tok
        (\<lambda>r. r\<lparr>implementation := newImplementation,
               config := (case cfg of None \<Rightarrow> config r | Some c \<Rightarrow> c),
               liveInstance := None\<rparr>)
        (services this)\<rparr>"

definition replace ::
  "nat \<Rightarrow> string \<Rightarrow> Implementation \<Rightarrow> Config option \<Rightarrow> ServiceRegistry \<Rightarrow> unit outcome"
where
  "replace fuel tok newImplementation cfg this =
     (case map_of (services this) tok of
        None \<Rightarrow> Some (Inl (registryError ''SERVICE_NOT_FOUND'' high False), this)
      | Some registration \<Rightarrow>
          (case instantiate newImplementation
                  (BareConfig (case cfg of None \<Rightarrow> config registration | Some c \<Rightarrow> c)) this of
             (None, this1) \<Rightarrow>
               Some (Inl (registryError ''SERVICE_REPLACEMENT_FAILED'' critical False), this1)
           | (Some testInstance, this1) \<Rightarrow>
               let this2 = this1\<lparr>serviceCalls := serviceCalls this1 @
                                   [IsHealthyCalled (objectId testInstance)]\<rparr>
               in if isHealthy newImplementation \<noteq> Some True
                  then Some (Inl (registryError ''SERVICE_REPLACEMENT_FAILED'' critical False), this2)
                  else (case liveInstance registration of
                          None \<Rightarrow>
                            map_option (Pair (Inr ()))
                              (notifyDependents fuel tok
                                 (replaceRegistration tok newImplementation cfg this2))
                        | Some old \<Rightarrow>
                            if shutdownThrows (madeBy old)
                            then Some (Inl (registryError ''SERVICE_REPLACEMENT_FAILED'' critical False),
                                       callShutdown old this2)
                            else map_option (Pair (Inr ()))
                                   (notifyDependents fuel tok
                                      (replaceRegistration tok newImplementation cfg
                                         (callShutdown old this2))))))"

text \<open>The loop of \<^verbatim>\<open>shutdown\<close>; an exception of an instance's \<^verbatim>\<open>shutdown\<close> is only logged.\<close>

fun shutdownEach :: "string list \<Rightarrow> ServiceRegistry \<Rightarrow> ServiceRegistry" where
  "shutdownEach [] this = this"
| "shutdownEach (tok # rest) this =
     shutdownEach rest
       (case map_of (services this) tok of
          None \<Rightarrow> this
        | Some registration \<Rightarrow>
            (case liveInstance registration of
               None \<Rightarrow> this
             | Some i \<Rightarrow> callShutdown i this))"

definition shutdown :: "ServiceRegistry \<Rightarrow> ServiceRegistry" where
  "shutdown this =
     (if isShuttingDown this then this
      else shutdownEach (rev (initializationOrder this)) (this\<lparr>isShuttingDown := True\<rparr>))"

section \<open>Module fault isolator (class ModularErrorBoundary)\<close>

text \<open>
  The component keeps its React state and two timer handles. \<^verbatim>\<open>setTimeout\<close> is called
  without clearing an earlier timer, so several callbacks can be pending: the model
  keeps the delays of the pending recovery callbacks and the number of pending cooldown
  callbacks. Real time is abstracted: a pending callback may fire at any moment.
\<close>

record ErrorBoundaryProps =
  boundaryModuleId :: string
  hasFallbackComponent :: bool
  enableRecovery :: "bool option"
  maxRetries :: "nat option"

record ErrorBoundaryState =
  hasError :: bool
  error :: "ServiceError option"
  retryCount :: nat
  isRecovering :: bool
  fallbackMode :: bool
  lastErrorTime :: int

record ModularErrorBoundary =
  state :: ErrorBoundaryState
  recoveryTimers :: "nat list"
  cooldownTimers :: nat

definition newModularErrorBoundary :: ModularErrorBoundary where
  "newModularErrorBoundary =
     \<lparr>state = \<lparr>hasError = False, error = None, retryCount = 0, isRecovering = False,
               fallbackMode = False, lastErrorTime = 0\<rparr>,
      recoveryTimers = [], cooldownTimers = 0\<rparr>"

text \<open>What a child can throw: a \<^verbatim>\<open>ServiceError\<close> or any other \<^verbatim>\<open>Error\<close>.\<close>

datatype Thrown = ThrownServiceError ServiceError | ThrownError

definition convertToServiceError :: "ErrorBoundaryProps \<Rightarrow> Thrown \<Rightarrow> ServiceError" where
  "convertToServiceError props thrown =
     (case thrown of
        ThrownServiceError e \<Rightarrow> e
      | ThrownError \<Rightarrow>
          \<lparr>code = ''COMPONENT_ERROR'',
           severity = (if boundaryModuleId props \<in> set [''AUTH_MODULE'', ''PAYMENT_MODULE'']
                       then high else medium),
           recoverable = True,
           moduleId = boundaryModuleId props\<rparr>)"

text \<open>\<^verbatim>\<open>this.props.maxRetries || 3\<close>: an absent or zero bound is 3.\<close>

definition maxRetriesOf :: "ErrorBoundaryProps \<Rightarrow> nat" where
  "maxRetriesOf props =
     (case maxRetries props of None \<Rightarrow> 3 | Some n \<Rightarrow> if n = 0 then 3 else n)"

definition attemptRecovery :: "ErrorBoundaryProps \<Rightarrow> ModularErrorBoundary \<Rightarrow> ModularErrorBoundary" where
  "attemptRecovery props this =
     (if retryCount (state this) \<ge> maxRetriesOf props
      then this\<lparr>state := (state this)\<lparr>fallbackMode := True, isRecovering := False\<rparr>\<rparr>
      else this\<lparr>state := (state this)\<lparr>isRecovering := True\<rparr>,
                recoveryTimers := recoveryTimers this @
                  [min (1000 * 2 ^ retryCount (state this)) 10000]\<rparr>)"

text \<open>
  \<^verbatim>\<open>getDerivedStateFromError\<close> followed by \<^verbatim>\<open>componentDidCatch\<close>, at the clock reading
  \<open>now\<close>. The report to the logging and flag subsystems does not touch the boundary.
\<close>

definition componentDidCatch ::
  "ErrorBoundaryProps \<Rightarrow> Thrown \<Rightarrow> int \<Rightarrow> ModularErrorBoundary \<Rightarrow> ModularErrorBoundary"
where
  "componentDidCatch props thrown now this =
     (let serviceError = convertToServiceError props thrown;
          caught = this\<lparr>state := (state this)\<lparr>error := Some serviceError, hasError := True,
                                                 lastErrorTime := now\<rparr>\<rparr>
      in if enableRecovery props = Some True \<and> recoverable serviceError
         then attemptRecovery props caught
         else caught)"

definition startErrorCooldown :: "ModularErrorBoundary \<Rightarrow> ModularErrorBoundary" where
  "startErrorCooldown this = this\<lparr>cooldownTimers := Suc (cooldownTimers this)\<rparr>"

text \<open>The callback that \<^verbatim>\<open>attemptRecovery\<close> hands to \<^verbatim>\<open>setTimeout\<close>.\<close>

definition recoveryCallback :: "ModularErrorBoundary \<Rightarrow> ModularErrorBoundary" where
  "recoveryCallback this =
     startErrorCooldown
       (this\<lparr>state := (state this)\<lparr>hasError := False, error := None,
                                     retryCount := retryCount (state this) + 1,
                                     isRecovering := False\<rparr>\<rparr>)"

text \<open>The callback that \<^verbatim>\<open>startErrorCooldown\<close> hands to \<^verbatim>\<open>setTimeout\<close>.\<close>

definition cooldownCallback :: "ModularErrorBoundary \<Rightarrow> ModularErrorBoundary" where
  "cooldownCallback this = this\<lparr>state := (state this)\<lparr>retryCount := 0\<rparr>\<rparr>"

definition resetError :: "ModularErrorBoundary \<Rightarrow> ModularErrorBoundary" where
  "resetError this =
     startErrorCooldown
       (this\<lparr>state := (state this)\<lparr>hasError := False, error := None, isRecovering := False,
                                     fallbackMode := False\<rparr>\<rparr>)"

definition canRetry :: "ErrorBoundaryProps \<Rightarrow> ModularErrorBoundary \<Rightarrow> bool" where
  "canRetry props this =
     (case error (state this) of
        None \<Rightarrow> False
      | Some e \<Rightarrow> recoverable e \<and> retryCount (state this) < maxRetriesOf props
                  \<and> \<not> fallbackMode (state this))"

datatype Rendered =
    ModuleRecoveryIndicator
  | FallbackComponent
  | CriticalErrorFallback
  | RecoverableErrorFallback
  | Children

definition render :: "ErrorBoundaryProps \<Rightarrow> ModularErrorBoundary \<Rightarrow> Rendered" where
  "render props this =
     (if isRecovering (state this) then ModuleRecoveryIndicator
      else (case error (state this) of
              Some e \<Rightarrow>
                if hasError (state this)
                then (if hasFallbackComponent props then FallbackComponent
                      else if severity e = critical \<or> fallbackMode (state this)
                           then CriticalErrorFallback
                           else RecoverableErrorFallback)
                else Children
            | None \<Rightarrow> Children))"

text \<open>
  What can happen to a mounted boundary. Faults are intercepted from the wrapped
  children, so a fault needs \<^verbatim>\<open>render\<close> to have returned the children; the private
  \<^verbatim>\<open>resetError\<close> is handed only to the fallback views, so a manual reset needs one of them
  on screen; a timer fires only while it is pending. \<open>None\<close>: the event cannot happen in
  this state.
\<close>

datatype BoundaryEvent =
    ChildThrows Thrown int
  | RecoveryTimerFires
  | CooldownTimerFires
  | ManualReset

fun step :: "ErrorBoundaryProps \<Rightarrow> ModularErrorBoundary \<Rightarrow> BoundaryEvent \<Rightarrow> ModularErrorBoundary option" where
  "step props this (ChildThrows thrown now) =
     (if render props this = Children then Some (componentDidCatch props thrown now this)
      else None)"
| "step props this RecoveryTimerFires =
     (case recoveryTimers this of
        [] \<Rightarrow> None
      | delay # pending \<Rightarrow> Some (recoveryCallback (this\<lparr>recoveryTimers := pending\<rparr>)))"
| "step props this CooldownTimerFires =
     (case cooldownTimers this of
        0 \<Rightarrow> None
      | Suc pending \<Rightarrow> Some (cooldownCallback (this\<lparr>cooldownTimers := pending\<rparr>)))"
| "step props this ManualReset =
     (if render props this \<in> set [FallbackComponent, CriticalErrorFallback, RecoverableErrorFallback]
      then Some (resetError this)
      else None)"

fun run :: "ErrorBoundaryProps \<Rightarrow> ModularErrorBoundary \<Rightarrow> BoundaryEvent list \<Rightarrow> ModularErrorBoundary option" where
  "run props this [] = Some this"
| "run props this (ev # evs) =
     (case step props this ev of None \<Rightarrow> None | Some this' \<Rightarrow> run props this' evs)"

section \<open>Notions and concrete inputs used to state the properties\<close>

subsection \<open>Flag managers used as concrete inputs\<close>

text \<open>The partial configuration \<^verbatim>\<open>{}\<close>.\<close>

definition noChange :: PartialConfig where
  "noChange = \<lparr>p_enabled = None, p_rolloutPercentage = None, p_userSegments = None,
     p_startDate = None, p_endDate = None, p_dependencies = None, p_rollbackOnError = None,
     p_description = None\<rparr>"

text \<open>
  \<^verbatim>\<open>updateFlag('CHARITY_SEARCH', { dependencies: ['PAYMENT_ENFORCEMENT'] })\<close> on a fresh
  manager: a core flag that depends on a flag that is off by default.
\<close>

definition coreWithDependency :: FeatureFlagsManager where
  "coreWithDependency =
     updateFlag ''CHARITY_SEARCH'' (noChange\<lparr>p_dependencies := Some (Some [''PAYMENT_ENFORCEMENT''])\<rparr>)
       (newFeatureFlagsManager None)"

text \<open>
  \<^verbatim>\<open>updateFlag('CHARITY_SEARCH', { enabled: false })\<close> on a fresh manager; by default
  \<^verbatim>\<open>CHARITY_AUTOCOMPLETE\<close> depends on \<^verbatim>\<open>CHARITY_SEARCH\<close>.
\<close>

definition coreSwitchedOff :: FeatureFlagsManager where
  "coreSwitchedOff = updateFlag ''CHARITY_SEARCH'' (onlyEnabled False) (newFeatureFlagsManager None)"

text \<open>No flag of the map has a \<^verbatim>\<open>startDate\<close> or an \<^verbatim>\<open>endDate\<close>.\<close>

definition noDateWindows :: "(string \<times> FeatureFlagConfig) list \<Rightarrow> bool" where
  "noDateWindows fl = list_all (\<lambda>(n, c). startDate c = None \<and> endDate c = None) fl"

text \<open>A signed-in free user whose identifier hashes into bucket 9 of \<^verbatim>\<open>NEW_DASHBOARD_UI\<close>.\<close>

definition user9 :: UserContext where
  "user9 = \<lparr>userId = Some ''u9'', isPaidUser = False, isAdmin = False, isDeveloper = False,
     createdAt = 0, lastLogin = 0\<rparr>"

text \<open>\<^verbatim>\<open>NEW_DASHBOARD_UI\<close> switched on (its default rollout is 10 percent), for that user.\<close>

definition rolledOut :: FeatureFlagsManager where
  "rolledOut = setUserContext user9
     (updateFlag ''NEW_DASHBOARD_UI'' (onlyEnabled True) (newFeatureFlagsManager None))"

text \<open>The same manager after a listener was registered and an error was reported.\<close>

definition rolledOutWithHistory :: FeatureFlagsManager where
  "rolledOutWithHistory =
     reportError ''NEW_DASHBOARD_UI'' (onFlagChange ''NEW_DASHBOARD_UI'' (Callback 1 []) rolledOut)"

text \<open>The same rollout with a start date, \<^verbatim>\<open>startDate: new Date(1000)\<close>.\<close>

definition scheduledRollout :: FeatureFlagsManager where
  "scheduledRollout = setUserContext user9
     (updateFlag ''NEW_DASHBOARD_UI''
        (noChange\<lparr>p_enabled := Some True, p_startDate := Some (Some 1000)\<rparr>)
        (newFeatureFlagsManager None))"

text \<open>Ten calls of \<^verbatim>\<open>reportError('MONEY_DONATIONS', e)\<close> on a fresh manager.\<close>

definition tenReports :: FeatureFlagsManager where
  "tenReports = (reportError ''MONEY_DONATIONS'' ^^ 10) (newFeatureFlagsManager None)"

text \<open>\<^verbatim>\<open>updateFlag('MONEY_DONATIONS', { dependencies: ['MONEY_DONATIONS'] })\<close> on a fresh manager.\<close>

definition selfDependent :: FeatureFlagsManager where
  "selfDependent =
     updateFlag ''MONEY_DONATIONS'' (noChange\<lparr>p_dependencies := Some (Some [''MONEY_DONATIONS''])\<rparr>)
       (newFeatureFlagsManager None)"

text \<open>A fresh manager with one listener on \<^verbatim>\<open>NEW_DASHBOARD_UI\<close>.\<close>

definition watched :: FeatureFlagsManager where
  "watched = onFlagChange ''NEW_DASHBOARD_UI'' (Callback 7 []) (newFeatureFlagsManager None)"




text \<open>A rank under which every default flag ranks above its dependencies.\<close>

definition defaultRank :: "string \<Rightarrow> nat" where
  "defaultRank n = (if n \<in> set [''STOCK_PRICING_API'', ''CRYPTO_PRICING_API'',
      ''CHARITY_AUTOCOMPLETE'', ''LICENSE_UPGRADES''] then 1 else 0)"

subsection \<open>Registries\<close>

text \<open>The dependency lists of the registrations, in registration order.\<close>

definition dependencyGraph :: "ServiceRegistry \<Rightarrow> (string \<times> string list) list" where
  "dependencyGraph this = map (\<lambda>(tok, registration). (tok, serviceDependencies registration)) (services this)"

text \<open>A sequence of \<^verbatim>\<open>register\<close> calls; the first exception ends it.\<close>

fun registerAll ::
  "(string \<times> Implementation \<times> RegisterOptions) list \<Rightarrow> ServiceRegistry \<Rightarrow> ServiceError + ServiceRegistry"
where
  "registerAll [] this = Inr this"
| "registerAll ((tok, impl, options) # rest) this =
     (case register tok impl options this of
        Inl e \<Rightarrow> Inl e
      | Inr this' \<Rightarrow> registerAll rest this')"

text \<open>All orders in which a list of registrations can be made.\<close>

fun insertEverywhere :: "'a \<Rightarrow> 'a list \<Rightarrow> 'a list list" where
  "insertEverywhere x [] = [[x]]"
| "insertEverywhere x (y # ys) = (x # y # ys) # map ((#) y) (insertEverywhere x ys)"

fun orderings :: "'a list \<Rightarrow> 'a list list" where
  "orderings [] = [[]]"
| "orderings (x # xs) = concat (map (insertEverywhere x) (orderings xs))"

text \<open>The registration that \<^verbatim>\<open>register\<close> stores for its arguments.\<close>

definition newRegistration :: "string \<times> Implementation \<times> RegisterOptions \<Rightarrow> string \<times> ServiceRegistration" where
  "newRegistration = (\<lambda>(tok, impl, options).
     (tok, \<lparr>token = tok, implementation = impl, liveInstance = None,
            serviceDependencies = (case opt_dependencies options of None \<Rightarrow> [] | Some ds \<Rightarrow> ds),
            config = (case opt_config options of None \<Rightarrow> [] | Some c \<Rightarrow> c),
            singleton = (opt_singleton options \<noteq> Some False)\<rparr>))"

text \<open>The depth of a token in the chain \<open>a\<close>, \<open>b\<close> depending on \<open>a\<close>, \<open>c\<close> depending on \<open>b\<close>.\<close>

definition chainRank :: "string \<Rightarrow> string \<Rightarrow> string \<Rightarrow> nat" where
  "chainRank b c tok = (if tok = c then 2 else if tok = b then 1 else 0)"

text \<open>The identities of the live instances of a list of tokens, in the order of the list.\<close>

definition liveObjectIds :: "ServiceRegistry \<Rightarrow> string list \<Rightarrow> nat list" where
  "liveObjectIds this toks =
     List.map_filter
       (\<lambda>tok. case map_of (services this) tok of
                 None \<Rightarrow> None
               | Some registration \<Rightarrow> map_option objectId (liveInstance registration))
       toks"

text \<open>Two registry states that differ at most in cached instances, object counter and call trace.\<close>

definition sameShape :: "ServiceRegistry \<Rightarrow> ServiceRegistry \<Rightarrow> bool" where
  "sameShape this' this \<longleftrightarrow> dependencyGraph this' = dependencyGraph this \<and>
     initializationOrder this' = initializationOrder this \<and>
     isShuttingDown this' = isShuttingDown this"

text \<open>A service class whose methods never throw and that reports healthy; one that reports unhealthy.\<close>

definition steady :: "string \<Rightarrow> Implementation" where
  "steady n = \<lparr>className = n, constructorThrows = False, initializeThrows = (\<lambda>arg. False),
     isHealthy = Some True, shutdownThrows = False\<rparr>"

text \<open>The options \<^verbatim>\<open>{ dependencies: ds }\<close>, and the registration they produce.\<close>

definition dependingOn :: "string list \<Rightarrow> RegisterOptions" where
  "dependingOn ds = \<lparr>opt_dependencies = Some ds, opt_config = None, opt_singleton = None\<rparr>"

definition freshRegistration :: "string \<Rightarrow> Implementation \<Rightarrow> string list \<Rightarrow> ServiceRegistration" where
  "freshRegistration tok impl ds = \<lparr>token = tok, implementation = impl, liveInstance = None,
     serviceDependencies = ds, config = [], singleton = True\<rparr>"

text \<open>The registry after \<^verbatim>\<open>register('A', ia, { dependencies: ['B'] })\<close> and \<^verbatim>\<open>register('B', ib, { dependencies: ['A'] })\<close>.\<close>

definition cyclicRegistry :: "Implementation \<Rightarrow> Implementation \<Rightarrow> ServiceRegistry" where
  "cyclicRegistry ia ib = newServiceRegistry
     \<lparr>services := [(''A'', freshRegistration ''A'' ia [''B'']), (''B'', freshRegistration ''B'' ib [''A''])]\<rparr>"

definition sick :: "string \<Rightarrow> Implementation" where
  "sick n = (steady n)\<lparr>isHealthy := Some False\<rparr>"

text \<open>The registry after \<^verbatim>\<open>register('AUTH', Auth)\<close> and a first \<^verbatim>\<open>get('AUTH')\<close>.\<close>

definition authReady :: ServiceRegistry where
  "authReady = newServiceRegistry
     \<lparr>services := [(''AUTH'', (freshRegistration ''AUTH'' (steady ''Auth'') [])
                      \<lparr>liveInstance := Some \<lparr>objectId = 0, madeBy = steady ''Auth''\<rparr>\<rparr>)],
      nextObjectId := 1,
      serviceCalls := [Constructed 0 ''Auth'', InitializeCalled 0]\<rparr>"

subsection \<open>Error boundaries\<close>

text \<open>
  What holds of every state a boundary can reach: at most one recovery callback is
  pending, and only while \<^verbatim>\<open>isRecovering\<close>; in fallback mode an error is on display and
  no recovery is under way.
\<close>

definition boundaryInvariant :: "ModularErrorBoundary \<Rightarrow> bool" where
  "boundaryInvariant this \<longleftrightarrow>
     length (recoveryTimers this) \<le> 1 \<and>
     (if recoveryTimers this = [] then True else isRecovering (state this)) \<and>
     (if fallbackMode (state this)
      then hasError (state this) \<and> error (state this) \<noteq> None \<and> \<not> isRecovering (state this)
      else True)"

text \<open>The props of \<^verbatim>\<open>DonationErrorBoundary\<close>.\<close>

definition donationProps :: ErrorBoundaryProps where
  "donationProps = \<lparr>boundaryModuleId = ''DONATION_MODULE'', hasFallbackComponent = True,
     enableRecovery = Some True, maxRetries = Some 3\<rparr>"

text \<open>Three faults of the children, each followed by the automatic recovery.\<close>

definition threeRecoveries :: "BoundaryEvent list" where
  "threeRecoveries =
     [ChildThrows ThrownError 0, RecoveryTimerFires,
      ChildThrows ThrownError 1000, RecoveryTimerFires,
      ChildThrows ThrownError 3000, RecoveryTimerFires]"

text \<open>The \<^verbatim>\<open>ServiceError\<close> made from a plain \<^verbatim>\<open>Error\<close> thrown inside the donation module.\<close>

definition componentError :: ServiceError where
  "componentError = \<lparr>code = ''COMPONENT_ERROR'', severity = medium, recoverable = True,
     moduleId = ''DONATION_MODULE''\<rparr>"

text \<open>The boundary after the three recoveries, and after the fault that follows them.\<close>

definition exhausted :: ModularErrorBoundary where
  "exhausted =
     \<lparr>state = \<lparr>hasError = False, error = None, retryCount = 3, isRecovering = False,
               fallbackMode = False, lastErrorTime = 3000\<rparr>,
      recoveryTimers = [], cooldownTimers = 3\<rparr>"

definition degraded :: ModularErrorBoundary where
  "degraded =
     \<lparr>state = \<lparr>hasError = True, error = Some componentError, retryCount = 3, isRecovering = False,
               fallbackMode = True, lastErrorTime = 7000\<rparr>,
      recoveryTimers = [], cooldownTimers = 3\<rparr>"

section \<open>Properties of the feature flag evaluator\<close>

lemma foldl_act_frame:
  "flags (foldl act m as) = flags m \<and> userContext (foldl act m as) = userContext m \<and>
   errorCounts (foldl act m as) = errorCounts m \<and> calls (foldl act m as) = calls m"
proof (induction as arbitrary: m)
  case Nil
  show ?case by simp
next
  case (Cons a as)
  obtain f ident where a: "a = CallsUnsubscribe f ident" by (cases a)
  have "flags (act m a) = flags m \<and> userContext (act m a) = userContext m \<and>
      errorCounts (act m a) = errorCounts m \<and> calls (act m a) = calls m"
    by (simp add: a unsubscribe_def split: option.splits)
  with Cons [of "act m a"] show ?case by simp
qed

lemma invoke_frame:
  "flags (invoke l e m) = flags m" "userContext (invoke l e m) = userContext m"
  "errorCounts (invoke l e m) = errorCounts m"
  "calls (invoke l e m) = calls m @ [(callbackId l, e)]"
  by (simp_all add: invoke_def foldl_act_frame)

lemma forEachFrom_frame:
  "flags (forEachFrom remaining k n e m) = flags m \<and>
   userContext (forEachFrom remaining k n e m) = userContext m \<and>
   errorCounts (forEachFrom remaining k n e m) = errorCounts m"
  by (induction remaining arbitrary: k m) (simp_all add: invoke_frame)

lemma updateFlag_flags:
  "flags (updateFlag n p m) = AList.update n (updatedConfig m n p) (flags m)"
  by (simp add: updateFlag_def Let_def forEachFrom_frame)

lemma updateFlag_userContext: "userContext (updateFlag n p m) = userContext m"
  by (simp add: updateFlag_def Let_def forEachFrom_frame)

lemma updateFlag_errorCounts: "errorCounts (updateFlag n p m) = errorCounts m"
  by (simp add: updateFlag_def Let_def forEachFrom_frame)

lemma updateFlag_unobserved:
  "listeners m = [] \<Longrightarrow>
   updateFlag n p m = m\<lparr>flags := AList.update n (updatedConfig m n p) (flags m)\<rparr>"
  by (simp add: updateFlag_def Let_def listenersOf_def)

lemma default_flags: "flags (newFeatureFlagsManager None) = defaultFlags"
  by (simp add: newFeatureFlagsManager_def initializeDefaultFlags_def emptyManager_def
      defaultFlags_def)

lemma default_userContext: "userContext (newFeatureFlagsManager None) = None"
  by (simp add: newFeatureFlagsManager_def initializeDefaultFlags_def emptyManager_def)

lemma allDependenciesEnabled_True_iff:
  "allDependenciesEnabled f deps = Some True \<longleftrightarrow> list_all (\<lambda>d. f d = Some True) deps"
  by (induction deps) (auto split: Option.bind_splits if_splits)

lemma allDependenciesEnabled_transfer:
  "(\<And>d y. f d = Some y \<Longrightarrow> g d = Some y) \<Longrightarrow>
   allDependenciesEnabled f deps = Some b \<Longrightarrow> allDependenciesEnabled g deps = Some b"
  by (induction deps arbitrary: b) (auto split: Option.bind_splits if_splits)

lemma isEnabled_core:
  "map_of (flags this) n = Some c \<Longrightarrow> isCoreFlag n \<Longrightarrow> isEnabled this now n = Some True"
  by (subst isEnabled.simps) simp

lemma isEnabled_missing:
  "map_of (flags this) n = None \<Longrightarrow> isEnabled this now n = Some False"
  by (subst isEnabled.simps) simp

lemma isEnabled_disabled:
  "map_of (flags this) n = Some c \<Longrightarrow> \<not> isCoreFlag n \<Longrightarrow> \<not> enabled c \<Longrightarrow>
   isEnabled this now n = Some False"
  by (subst isEnabled.simps) simp

lemma isEnabled_True_dependencies:
  assumes "isEnabled this now A = Some True" and "map_of (flags this) A = Some cfgA"
    and "\<not> isCoreFlag A" and "dependencies cfgA = Some deps"
  shows "list_all (\<lambda>d. isEnabled this now d = Some True) deps"
proof -
  from assms have "allDependenciesEnabled (isEnabled this now) deps = Some True"
    by (subst (asm) isEnabled.simps) (auto split: if_splits Option.bind_splits)
  then show ?thesis by (simp add: allDependenciesEnabled_True_iff)
qed

text \<open>
  C3 (as the code has it). Let \<open>A\<close> be a flag of the map that is not one of the three core
  flags and whose configuration lists \<open>B\<close> among its dependencies. Whenever
  \<open>isEnabled A\<close> returns true, \<open>isEnabled B\<close> returns true as well, and \<open>B\<close> is
  a core flag or its own configuration has \<open>enabled = true\<close>: a dependency that is
  switched off (and is not a core flag) keeps \<open>A\<close> from being reported enabled.
\<close>

theorem flag_dependency_composition:
  assumes "map_of (flags this) A = Some cfgA"
    and "dependencies cfgA = Some deps"
    and "B \<in> set deps"
    and "\<not> isCoreFlag A"
    and "isEnabled this now A = Some True"
  shows "isEnabled this now B = Some True \<and>
         (isCoreFlag B \<or> map_option enabled (map_of (flags this) B) = Some True)"
proof -
  have b: "isEnabled this now B = Some True"
    using isEnabled_True_dependencies [OF assms(5) assms(1) assms(4) assms(2)] assms(3)
    by (simp add: list_all_iff)
  have "map_option enabled (map_of (flags this) B) = Some True" if "\<not> isCoreFlag B"
  proof (cases "map_of (flags this) B")
    case None
    with b show ?thesis by (simp add: isEnabled_missing)
  next
    case (Some cfgB)
    with b that show ?thesis
      by (cases "enabled cfgB") (simp_all add: isEnabled_disabled)
  qed
  with b show ?thesis by blast
qed

theorem flag_dependency_composition_witness:
  "isEnabled (newFeatureFlagsManager None) 0 ''STOCK_PRICING_API'' = Some True \<and>
   isEnabled (newFeatureFlagsManager None) 0 ''STOCK_DONATIONS'' = Some True \<and>
   map_option enabled (map_of (flags (newFeatureFlagsManager None)) ''STOCK_DONATIONS'') = Some True"
proof -
  let ?m = "newFeatureFlagsManager None"
  let ?cfg = "(flag True ''Real-time stock price lookup'')
          \<lparr>dependencies := Some [''STOCK_DONATIONS''], rollbackOnError := Some True\<rparr>"
  have 1: "map_of (flags ?m) ''STOCK_PRICING_API'' = Some ?cfg"
    by (simp add: default_flags defaultFlags_def)
  have 2: "dependencies ?cfg = Some [''STOCK_DONATIONS'']" by simp
  have 3: "''STOCK_DONATIONS'' \<in> set [''STOCK_DONATIONS'']" by simp
  have 4: "\<not> isCoreFlag ''STOCK_PRICING_API''" by (simp add: isCoreFlag_def)
  have 5: "isEnabled ?m 0 ''STOCK_PRICING_API'' = Some True"
    by (simp add: isEnabled.simps default_flags default_userContext defaultFlags_def
        isCoreFlag_def flag_def segmentsAndRollout_def)
  have "isCoreFlag ''STOCK_DONATIONS'' = False" by (simp add: isCoreFlag_def)
  with flag_dependency_composition [OF 1 2 3 4 5] 5 show ?thesis by simp
qed

text \<open>
  C3 as the specification states it fails in two places. A core flag is reported
  enabled although a flag it depends on is not; and a flag is reported enabled although
  the configuration of a core flag it depends on has \<open>enabled = false\<close>.
\<close>

theorem flag_dependency_composition_counterexample:
  "map_option dependencies (map_of (flags coreWithDependency) ''CHARITY_SEARCH'')
     = Some (Some [''PAYMENT_ENFORCEMENT'']) \<and>
   isEnabled coreWithDependency 0 ''CHARITY_SEARCH'' = Some True \<and>
   isEnabled coreWithDependency 0 ''PAYMENT_ENFORCEMENT'' = Some False \<and>
   map_option dependencies (map_of (flags coreSwitchedOff) ''CHARITY_AUTOCOMPLETE'')
     = Some (Some [''CHARITY_SEARCH'']) \<and>
   map_option enabled (map_of (flags coreSwitchedOff) ''CHARITY_SEARCH'') = Some False \<and>
   isEnabled coreSwitchedOff 0 ''CHARITY_AUTOCOMPLETE'' = Some True"
proof -
  have f1: "flags coreWithDependency = AList.update ''CHARITY_SEARCH''
      ((flag True ''Charity search and selection'')\<lparr>dependencies := Some [''PAYMENT_ENFORCEMENT'']\<rparr>)
      defaultFlags"
    by (simp add: coreWithDependency_def updateFlag_flags updateFlag_userContext updateFlag_errorCounts updatedConfig_def default_flags
        defaultFlags_def spread_def noChange_def flag_def)
  have f2: "flags coreSwitchedOff = AList.update ''CHARITY_SEARCH''
      (flag False ''Charity search and selection'') defaultFlags"
    by (simp add: coreSwitchedOff_def updateFlag_flags updateFlag_userContext updateFlag_errorCounts updatedConfig_def default_flags
        defaultFlags_def spread_def onlyEnabled_def flag_def)
  have u2: "userContext coreSwitchedOff = None"
    by (simp add: coreSwitchedOff_def updateFlag_flags updateFlag_userContext updateFlag_errorCounts default_userContext)
  have a: "map_option dependencies (map_of (flags coreWithDependency) ''CHARITY_SEARCH'')
     = Some (Some [''PAYMENT_ENFORCEMENT''])"
    by (simp add: f1 defaultFlags_def)
  have b: "isEnabled coreWithDependency 0 ''CHARITY_SEARCH'' = Some True"
    by (subst isEnabled.simps) (simp add: f1 defaultFlags_def isCoreFlag_def)
  have c: "isEnabled coreWithDependency 0 ''PAYMENT_ENFORCEMENT'' = Some False"
    by (subst isEnabled.simps) (simp add: f1 defaultFlags_def isCoreFlag_def flag_def)
  have d: "map_option dependencies (map_of (flags coreSwitchedOff) ''CHARITY_AUTOCOMPLETE'')
     = Some (Some [''CHARITY_SEARCH''])"
    by (simp add: f2 defaultFlags_def)
  have e: "map_option enabled (map_of (flags coreSwitchedOff) ''CHARITY_SEARCH'') = Some False"
    by (simp add: f2 defaultFlags_def flag_def)
  have f: "isEnabled coreSwitchedOff 0 ''CHARITY_AUTOCOMPLETE'' = Some True"
    by (simp add: isEnabled.simps f2 u2 defaultFlags_def isCoreFlag_def flag_def
        segmentsAndRollout_def)
  from a b c d e f show ?thesis by simp
qed

lemma noDateWindowsD:
  "noDateWindows fl \<Longrightarrow> map_of fl n = Some c \<Longrightarrow> startDate c = None \<and> endDate c = None"
  by (auto simp: noDateWindows_def list_all_iff dest!: map_of_SomeD)

lemma segmentsAndRollout_cong:
  "userContext m' = userContext m \<Longrightarrow> segmentsAndRollout m' n c = segmentsAndRollout m n c"
proof -
  assume u: "userContext m' = userContext m"
  then have "currentUserId m' = currentUserId m" by (simp add: currentUserId_def)
  with u show ?thesis by (simp add: segmentsAndRollout_def split: option.splits)
qed

lemma hashUserId_u9: "hashUserId ''u9'' ''NEW_DASHBOARD_UI'' = 955286809"
  by (simp add: hashUserId_def hashStep_def)

lemma rolledOut_flags: "flags rolledOut = AList.update ''NEW_DASHBOARD_UI''
   ((flag True ''Redesigned dashboard interface'')\<lparr>rolloutPercentage := Some 10, rollbackOnError := Some True\<rparr>) defaultFlags"
  by (simp add: rolledOut_def setUserContext_def updateFlag_flags updateFlag_userContext updateFlag_errorCounts updatedConfig_def default_flags
        defaultFlags_def spread_def onlyEnabled_def flag_def)

lemma rolledOut_enabled: "isEnabled rolledOut 0 ''NEW_DASHBOARD_UI'' = Some True"
  apply (subst isEnabled.simps)
  apply (simp add: rolledOut_flags defaultFlags_def isCoreFlag_def flag_def segmentsAndRollout_def currentUserId_def hashUserId_u9)
  apply (simp add: rolledOut_def setUserContext_def user9_def hashUserId_u9)
  done

lemma rolledOutWithHistory_state: "flags rolledOutWithHistory = flags rolledOut \<and> userContext rolledOutWithHistory = userContext rolledOut
  \<and> errorCounts rolledOutWithHistory = [(''NEW_DASHBOARD_UI'', 1)]"
  by (simp add: rolledOutWithHistory_def reportError_def onFlagChange_def rolledOut_flags defaultFlags_def flag_def Let_def errorCount_def)
   (simp add: rolledOut_def setUserContext_def updateFlag_flags updateFlag_userContext updateFlag_errorCounts default_flags newFeatureFlagsManager_def initializeDefaultFlags_def emptyManager_def)

lemma rolledOut_noDateWindows: "noDateWindows (flags rolledOut)"
  by (simp add: rolledOut_flags noDateWindows_def defaultFlags_def flag_def)

lemma scheduledRollout_window: "isEnabled scheduledRollout 999 ''NEW_DASHBOARD_UI'' = Some False \<and>
   isEnabled scheduledRollout 1000 ''NEW_DASHBOARD_UI'' = Some True"
proof -
  have f: "flags scheduledRollout = AList.update ''NEW_DASHBOARD_UI''
   ((flag True ''Redesigned dashboard interface'')\<lparr>rolloutPercentage := Some 10, startDate := Some 1000, rollbackOnError := Some True\<rparr>) defaultFlags"
    by (simp add: scheduledRollout_def setUserContext_def updateFlag_flags updateFlag_userContext updateFlag_errorCounts updatedConfig_def default_flags
        defaultFlags_def spread_def noChange_def flag_def)
  have u: "currentUserId scheduledRollout = Some ''u9''"
    by (simp add: scheduledRollout_def setUserContext_def user9_def currentUserId_def)
  have s: "userContext scheduledRollout = Some user9"
    by (simp add: scheduledRollout_def setUserContext_def)
  have a: "isEnabled scheduledRollout 999 ''NEW_DASHBOARD_UI'' = Some False"
    by (subst isEnabled.simps) (simp add: f defaultFlags_def isCoreFlag_def flag_def)
  have b: "isEnabled scheduledRollout 1000 ''NEW_DASHBOARD_UI'' = Some True"
    by (subst isEnabled.simps) (simp add: f u s defaultFlags_def isCoreFlag_def flag_def segmentsAndRollout_def hashUserId_u9)
  from a b show ?thesis by simp
qed

lemma tenReports_state: "flags tenReports = defaultFlags \<and> errorCounts tenReports = [(''MONEY_DONATIONS'', 10)]
     \<and> userContext tenReports = None"
proof -
  have step: "reportError ''MONEY_DONATIONS'' m = m\<lparr>errorCounts := [(''MONEY_DONATIONS'', Suc k)]\<rparr>"
    if "flags m = defaultFlags" "errorCounts m = (if k = 0 then [] else [(''MONEY_DONATIONS'', k)])" "k < 10" for m k
    using that by (simp add: reportError_def defaultFlags_def flag_def errorCount_def Let_def)
  have "k \<le> 10 \<Longrightarrow> (reportError ''MONEY_DONATIONS'' ^^ k) (newFeatureFlagsManager None)
       = (newFeatureFlagsManager None)\<lparr>errorCounts := (if k = 0 then [] else [(''MONEY_DONATIONS'', k)])\<rparr>" for k
  proof (induction k)
    case 0
    show ?case by (simp add: newFeatureFlagsManager_def initializeDefaultFlags_def emptyManager_def)
  next
    case (Suc k)
    then show ?case by (simp add: step [of _ k] default_flags)
  qed
  from this [of 10] show ?thesis
    by (simp add: tenReports_def default_flags default_userContext)
qed

lemma errorCount_update:
  "errorCount (this\<lparr>errorCounts := AList.update n k (errorCounts this)\<rparr>) n' =
     (if n' = n then k else errorCount this n')"
  by (simp add: errorCount_def update_conv')

text \<open>
  C5 (as the code has it). \<^verbatim>\<open>reportError\<close> leaves the manager unchanged unless the flag
  exists with \<^verbatim>\<open>rollbackOnError = true\<close>. For such a flag, a report that finds the
  counter below 10 adds one to it and changes nothing else; a report that finds the
  counter at 10 or more (the eleventh report in a row) sets the flag's \<^verbatim>\<open>enabled\<close> to
  false and removes the counter.
\<close>

theorem reportError_auto_rollback:
  "(map_option rollbackOnError (map_of (flags this) n) \<noteq> Some (Some True)
      \<longrightarrow> reportError n this = this) \<and>
   (map_option rollbackOnError (map_of (flags this) n) = Some (Some True) \<and> errorCount this n < 10
      \<longrightarrow> errorCount (reportError n this) n = errorCount this n + 1 \<and>
          flags (reportError n this) = flags this \<and>
          calls (reportError n this) = calls this) \<and>
   (map_option rollbackOnError (map_of (flags this) n) = Some (Some True) \<and> 10 \<le> errorCount this n
      \<longrightarrow> map_option enabled (map_of (flags (reportError n this)) n) = Some False \<and>
          map_of (errorCounts (reportError n this)) n = None \<and>
          errorCount (reportError n this) n = 0)"
  by (auto simp: reportError_def Let_def errorCount_def update_conv' delete_conv' updateFlag_flags updateFlag_userContext updateFlag_errorCounts
      updatedConfig_def spread_def onlyEnabled_def split: option.splits)

theorem reportError_auto_rollback_witness:
  "reportError ''PAYMENT_ENFORCEMENT'' (newFeatureFlagsManager None) = newFeatureFlagsManager None \<and>
   errorCount (newFeatureFlagsManager None) ''MONEY_DONATIONS'' = 0 \<and>
   errorCount (reportError ''MONEY_DONATIONS'' (newFeatureFlagsManager None)) ''MONEY_DONATIONS'' = 1 \<and>
   errorCount tenReports ''MONEY_DONATIONS'' = 10 \<and>
   map_option enabled (map_of (flags (reportError ''MONEY_DONATIONS'' tenReports)) ''MONEY_DONATIONS'')
     = Some False \<and>
   errorCount (reportError ''MONEY_DONATIONS'' tenReports) ''MONEY_DONATIONS'' = 0"
proof -
  let ?m = "newFeatureFlagsManager None"
  have a: "map_option rollbackOnError (map_of (flags ?m) ''PAYMENT_ENFORCEMENT'') \<noteq> Some (Some True)"
    by (simp add: default_flags defaultFlags_def flag_def)
  have b: "map_option rollbackOnError (map_of (flags ?m) ''MONEY_DONATIONS'') = Some (Some True)"
    by (simp add: default_flags defaultFlags_def flag_def)
  have c: "errorCount ?m ''MONEY_DONATIONS'' = 0"
    by (simp add: errorCount_def newFeatureFlagsManager_def initializeDefaultFlags_def emptyManager_def)
  have d: "map_option rollbackOnError (map_of (flags tenReports) ''MONEY_DONATIONS'') = Some (Some True)"
    by (simp add: tenReports_state defaultFlags_def flag_def)
  have e: "errorCount tenReports ''MONEY_DONATIONS'' = 10"
    by (simp add: errorCount_def tenReports_state)
  from reportError_auto_rollback [of ?m "''PAYMENT_ENFORCEMENT''"]
    reportError_auto_rollback [of ?m "''MONEY_DONATIONS''"]
    reportError_auto_rollback [of tenReports "''MONEY_DONATIONS''"]
    a b c d e
  show ?thesis by simp
qed

text \<open>
  C5 as the specification states it fails: after ten reports the counter has reached the
  threshold 10 and the flag is still enabled.
\<close>

theorem reportError_auto_rollback_counterexample:
  "errorCount tenReports ''MONEY_DONATIONS'' = 10 \<and>
   map_option enabled (map_of (flags tenReports) ''MONEY_DONATIONS'') = Some True \<and>
   isEnabled tenReports 0 ''MONEY_DONATIONS'' = Some True"
proof -
  have "isEnabled tenReports 0 ''MONEY_DONATIONS'' = Some True"
    by (subst isEnabled.simps)
      (simp add: tenReports_state defaultFlags_def flag_def isCoreFlag_def segmentsAndRollout_def)
  then show ?thesis by (simp add: errorCount_def tenReports_state defaultFlags_def flag_def)
qed

lemma updateFlag_keeps: "map_of (flags m) n \<noteq> None \<Longrightarrow> map_of (flags (updateFlag k p m)) n \<noteq> None"
  by (simp add: updateFlag_flags updateFlag_userContext updateFlag_errorCounts update_conv')

lemma updateFlags_keeps: "map_of (flags m) n \<noteq> None \<Longrightarrow> map_of (flags (updateFlags fs m)) n \<noteq> None"
  unfolding updateFlags_def
proof (induction fs arbitrary: m)
  case Nil
  then show ?case by simp
next
  case (Cons f fs)
  obtain k e where f: "f = (k, e)" by (cases f)
  from Cons.IH [OF updateFlag_keeps [OF Cons.prems, of k "onlyEnabled e"]]
  show ?case by (simp add: f)
qed

lemma reportError_keeps: "map_of (flags m) n \<noteq> None \<Longrightarrow> map_of (flags (reportError k m)) n \<noteq> None"
  by (auto simp: reportError_def Let_def updateFlag_flags updateFlag_userContext updateFlag_errorCounts update_conv' split: option.splits)

lemma perform_keeps: "map_of (flags m) n \<noteq> None \<Longrightarrow> map_of (flags (perform m c)) n \<noteq> None"
  by (cases c)
   (auto simp: updateFlag_keeps updateFlags_keeps reportError_keeps setUserContext_def
      onFlagChange_def unsubscribe_def split: option.splits)

lemma foldl_perform_keeps:
  "map_of (flags m) n \<noteq> None \<Longrightarrow> map_of (flags (foldl perform m cs)) n \<noteq> None"
proof (induction cs arbitrary: m)
  case Nil
  then show ?case by simp
next
  case (Cons c cs)
  from Cons.IH [OF perform_keeps [OF Cons.prems, of c]] show ?case by simp
qed

lemma constructor_core:
  "isCoreFlag n \<Longrightarrow> map_of (flags (newFeatureFlagsManager init)) n \<noteq> None"
proof (cases init)
  case None
  assume "isCoreFlag n"
  then show ?thesis unfolding None by (auto simp: default_flags defaultFlags_def isCoreFlag_def)
next
  case (Some fs)
  assume "isCoreFlag n"
  then have "map_of (flags (newFeatureFlagsManager None)) n \<noteq> None"
    by (auto simp: default_flags defaultFlags_def isCoreFlag_def)
  then show ?thesis
    unfolding Some by (simp add: newFeatureFlagsManager_def updateFlags_keeps)
qed

lemma core_always:
  "isCoreFlag n \<Longrightarrow> isEnabled (foldl perform (newFeatureFlagsManager init) cs) now n = Some True"
  using foldl_perform_keeps [OF constructor_core] isEnabled_core by fastforce

lemma allDependenciesEnabled_returns:
  "list_all (\<lambda>d. f d \<noteq> None) deps \<Longrightarrow> allDependenciesEnabled f deps \<noteq> None"
  by (induction deps) (auto split: Option.bind_splits)

lemma isEnabled_returns:
  fixes rank :: "string \<Rightarrow> nat"
  assumes "\<And>n cfg deps d. map_of (flags this) n = Some cfg \<Longrightarrow> dependencies cfg = Some deps
      \<Longrightarrow> d \<in> set deps \<Longrightarrow> rank d < rank n"
  shows "isEnabled this now n \<noteq> None"
proof (induction "rank n" arbitrary: n rule: less_induct)
  case less
  show ?case
  proof (cases "map_of (flags this) n")
    case None
    then show ?thesis by (subst isEnabled.simps) simp
  next
    case (Some cfg)
    have "allDependenciesEnabled (isEnabled this now) deps \<noteq> None"
      if "dependencies cfg = Some deps" for deps
    proof (rule allDependenciesEnabled_returns)
      show "list_all (\<lambda>d. isEnabled this now d \<noteq> None) deps"
        unfolding list_all_iff
      proof
        fix d assume "d \<in> set deps"
        from less [OF assms [OF Some that this]] show "isEnabled this now d \<noteq> None" .
      qed
    qed
    with Some show ?thesis
      by (subst isEnabled.simps) (auto split: option.splits Option.bind_splits)
  qed
qed

lemma getEnabledFlags_returns:
  assumes "list_all (\<lambda>n. isEnabled this now n \<noteq> None) flagNames"
  shows "getEnabledFlags this now \<noteq> None"
proof -
  have "those (map f ns) \<noteq> None" if "list_all (\<lambda>n. f n \<noteq> None) ns"
    for f :: "string \<Rightarrow> (string \<times> bool) option" and ns
    using that by (induction ns) (auto split: option.splits)
  moreover have "list_all (\<lambda>n. enabledEntry this now n \<noteq> None) flagNames"
    using assms by (auto simp: list_all_iff enabledEntry_def)
  ultimately show ?thesis by (simp add: getEnabledFlags_def)
qed

lemma default_rank:
  assumes "map_of defaultFlags n = Some cfg" "dependencies cfg = Some deps" "d \<in> set deps"
  shows "defaultRank d < defaultRank n"
  using assms
  by (auto simp: defaultFlags_def flag_def defaultRank_def split: if_splits)

lemma getEnabledFlags_core:
  assumes "getEnabledFlags m now = Some fs"
  shows "map_of fs ''BASIC_AUTH'' = Some True \<and> map_of fs ''DONATION_TRACKING'' = Some True \<and>
         map_of fs ''CHARITY_SEARCH'' = Some True"
proof -
  obtain rest where r: "flagNames = ''BASIC_AUTH'' # ''DONATION_TRACKING'' # ''CHARITY_SEARCH'' # rest"
    by (simp add: flagNames_def)
  from assms obtain fs' where "fs = (''BASIC_AUTH'', True) # (''DONATION_TRACKING'', True) #
      (''CHARITY_SEARCH'', True) # fs'"
    unfolding getEnabledFlags_def r
    by (auto simp: enabledEntry_def isCoreFlag_def split: option.splits)
  then show ?thesis by simp
qed

text \<open>
  C7 (as the code has it). After the constructor and any sequence of \<^verbatim>\<open>updateFlag\<close>,
  \<^verbatim>\<open>updateFlags\<close>, \<^verbatim>\<open>reportError\<close>, \<^verbatim>\<open>setUserContext\<close> and listener commands, and at
  any clock reading, \<^verbatim>\<open>isEnabled\<close> returns true for each of the three core flags;
  whenever \<^verbatim>\<open>getEnabledFlags\<close> returns an object, it maps the three core flags to true;
  and it does return one whenever the dependencies of the flags are acyclic (some rank
  puts every flag above its dependencies).
\<close>

theorem core_flag_permanence:
  "isEnabled (foldl perform (newFeatureFlagsManager init) cs) now ''BASIC_AUTH'' = Some True \<and>
   isEnabled (foldl perform (newFeatureFlagsManager init) cs) now ''DONATION_TRACKING'' = Some True \<and>
   isEnabled (foldl perform (newFeatureFlagsManager init) cs) now ''CHARITY_SEARCH'' = Some True \<and>
   (\<forall>fs. getEnabledFlags (foldl perform (newFeatureFlagsManager init) cs) now = Some fs \<longrightarrow>
      map_of fs ''BASIC_AUTH'' = Some True \<and> map_of fs ''DONATION_TRACKING'' = Some True \<and>
      map_of fs ''CHARITY_SEARCH'' = Some True) \<and>
   (\<forall>rank :: string \<Rightarrow> nat.
      (\<forall>n cfg deps d.
          map_of (flags (foldl perform (newFeatureFlagsManager init) cs)) n = Some cfg \<and>
          dependencies cfg = Some deps \<and> d \<in> set deps \<longrightarrow> rank d < rank n)
      \<longrightarrow> getEnabledFlags (foldl perform (newFeatureFlagsManager init) cs) now \<noteq> None)"
proof -
  let ?m = "foldl perform (newFeatureFlagsManager init) cs"
  have "getEnabledFlags ?m now \<noteq> None"
    if "\<forall>n cfg deps d. map_of (flags ?m) n = Some cfg \<and> dependencies cfg = Some deps \<and> d \<in> set deps
          \<longrightarrow> rank d < rank n" for rank :: "string \<Rightarrow> nat"
  proof (rule getEnabledFlags_returns)
    have "isEnabled ?m now n \<noteq> None" for n
      by (rule isEnabled_returns [of ?m rank]) (use that in blast)
    then show "list_all (\<lambda>n. isEnabled ?m now n \<noteq> None) flagNames"
      by (simp add: list_all_iff)
  qed
  with core_always [of _ init cs now] getEnabledFlags_core [of ?m now] show ?thesis
    by (simp add: isCoreFlag_def)
qed

lemma selfDependent_flags: "flags selfDependent = AList.update ''MONEY_DONATIONS''
    ((flag True ''Cash/check donations'')\<lparr>dependencies := Some [''MONEY_DONATIONS''], rollbackOnError := Some True\<rparr>)
    defaultFlags"
  by (simp add: selfDependent_def updateFlag_flags updateFlag_userContext updateFlag_errorCounts updatedConfig_def default_flags
        defaultFlags_def spread_def noChange_def flag_def)

lemma selfDependent_diverges_aux:
  "isEnabled m now n = Some y \<Longrightarrow> \<not> (m = selfDependent \<and> n = ''MONEY_DONATIONS'')"
proof (induction rule: isEnabled.raw_induct [rotated 1, consumes 1, case_names step])
  case (step isEnabled' this now flagName y)
  show ?case
  proof
    assume a: "this = selfDependent \<and> flagName = ''MONEY_DONATIONS''"
    with step(2) obtain b where "isEnabled' this now flagName = Some b"
      by (auto simp: selfDependent_flags defaultFlags_def isCoreFlag_def flag_def
          split: Option.bind_splits if_splits)
    from step(1) [OF this] a show False by simp
  qed
qed

lemma selfDependent_diverges: "isEnabled selfDependent now ''MONEY_DONATIONS'' = None"
  using selfDependent_diverges_aux [of selfDependent now "''MONEY_DONATIONS''"]
  by (cases "isEnabled selfDependent now ''MONEY_DONATIONS''") auto

text \<open>
  C7 as the specification states it fails for \<^verbatim>\<open>getEnabledFlags\<close>: after an update that
  makes a non-core flag depend on itself, \<^verbatim>\<open>getEnabledFlags\<close> does not return, so it maps
  nothing to true.
\<close>

theorem core_flag_permanence_counterexample:
  "getEnabledFlags selfDependent 0 = None"
  by (simp add: getEnabledFlags_def flagNames_def enabledEntry_def isCoreFlag_def
      selfDependent_diverges)

lemma isEnabled_transfer_aux:
  "isEnabled m now n = Some y \<Longrightarrow>
   (\<forall>m' now'. flags m' = flags m \<and> userContext m' = userContext m \<and>
       (now' = now \<or> noDateWindows (flags m)) \<longrightarrow> isEnabled m' now' n = Some y)"
proof (induction rule: isEnabled.raw_induct [rotated 1, consumes 1, case_names step])
  case (step isEnabled' this now flagName y)
  show ?case
  proof (intro allI impI)
    fix m' :: FeatureFlagsManager and now' :: int
    assume c: "flags m' = flags this \<and> userContext m' = userContext this \<and>
       (now' = now \<or> noDateWindows (flags this))"
    show "isEnabled m' now' flagName = Some y"
    proof (cases "map_of (flags this) flagName")
      case None
      with step(2) c show ?thesis by (subst isEnabled.simps) simp
    next
      case (Some cfg)
      have dates: "(case startDate cfg of None \<Rightarrow> False | Some s \<Rightarrow> now' < s) =
                   (case startDate cfg of None \<Rightarrow> False | Some s \<Rightarrow> now < s)"
        "(case endDate cfg of None \<Rightarrow> False | Some e \<Rightarrow> now' > e) =
                   (case endDate cfg of None \<Rightarrow> False | Some e \<Rightarrow> now > e)"
        using c noDateWindowsD [OF _ Some] by auto
      have deps: "allDependenciesEnabled (isEnabled m' now') ds = Some b"
        if "allDependenciesEnabled (isEnabled' this now) ds = Some b" for ds b
        using _ that
      proof (rule allDependenciesEnabled_transfer)
        fix d z assume "isEnabled' this now d = Some z"
        from step(1) [OF this] c show "isEnabled m' now' d = Some z" by blast
      qed
      from step(2) Some c dates show ?thesis
        by (subst isEnabled.simps)
          (auto simp: segmentsAndRollout_cong [of m' this] split: if_splits Option.bind_splits option.splits
            dest: deps)
    qed
  qed
qed

text \<open>
  C4 (as the code has it). Two managers that hold the same flag map and the same user
  context return the same answer for every flag, whatever their error counters and
  listeners, when they are asked at the same clock reading; and at any two clock readings
  when no flag has a date window. (The hash is the function \<^const>\<open>hashUserId\<close> of the
  two strings.)
\<close>

theorem rollout_determinism:
  assumes "flags m' = flags m" and "userContext m' = userContext m"
    and "now' = now \<or> noDateWindows (flags m)"
  shows "isEnabled m' now' n = isEnabled m now n"
proof (cases "isEnabled m now n")
  case (Some y)
  then show ?thesis using isEnabled_transfer_aux assms by metis
next
  case None
  show ?thesis
  proof (cases "isEnabled m' now' n")
    case (Some y)
    have "isEnabled m now n = Some y"
      using isEnabled_transfer_aux [OF Some] assms by auto
    with None show ?thesis by simp
  qed (simp add: None)
qed

theorem rollout_determinism_witness:
  "flags rolledOutWithHistory = flags rolledOut \<and>
   userContext rolledOutWithHistory = userContext rolledOut \<and>
   errorCounts rolledOutWithHistory \<noteq> errorCounts rolledOut \<and>
   noDateWindows (flags rolledOut) \<and>
   isEnabled rolledOutWithHistory 86400000 ''NEW_DASHBOARD_UI'' = Some True"
proof -
  have "errorCounts rolledOut = []"
    by (simp add: rolledOut_def setUserContext_def updateFlag_flags updateFlag_userContext updateFlag_errorCounts newFeatureFlagsManager_def
        initializeDefaultFlags_def emptyManager_def)
  with rollout_determinism [of rolledOutWithHistory rolledOut 86400000 0 "''NEW_DASHBOARD_UI''"]
    rolledOutWithHistory_state rolledOut_noDateWindows rolledOut_enabled
  show ?thesis by simp
qed

text \<open>
  C4 as the specification states it fails: with the configuration and the user fixed, a
  flag with a \<^verbatim>\<open>startDate\<close> answers false on a call before that instant and true on a
  call after it.
\<close>

theorem rollout_determinism_counterexample:
  "isEnabled scheduledRollout 999 ''NEW_DASHBOARD_UI'' = Some False \<and>
   isEnabled scheduledRollout 1000 ''NEW_DASHBOARD_UI'' = Some True"
  by (rule scheduledRollout_window)










text \<open>
  C10. For a flag that is not a core flag and whose \<^verbatim>\<open>rolloutPercentage\<close> is defined and
  below 100, \<^verbatim>\<open>isEnabled\<close> never returns true while there is no user context or the
  context has no (or an empty) \<^verbatim>\<open>userId\<close>; and it returns false as soon as the
  dependency check passes, whatever the percentage.
\<close>

theorem rollout_needs_identity:
  assumes "map_of (flags this) n = Some cfg" and "\<not> isCoreFlag n"
    and "rolloutPercentage cfg = Some pct" and "pct < 100"
    and "currentUserId this = None"
  shows "isEnabled this now n \<noteq> Some True \<and>
         ((case dependencies cfg of None \<Rightarrow> True
           | Some deps \<Rightarrow> list_all (\<lambda>d. isEnabled this now d = Some True) deps)
          \<longrightarrow> isEnabled this now n = Some False)"
proof -
  have s: "segmentsAndRollout this n cfg = False"
    using assms by (simp add: segmentsAndRollout_def)
  have 1: "isEnabled this now n \<noteq> Some True"
    using assms(1,2) s
    by (subst isEnabled.simps) (auto split: Option.bind_splits)
  have 2: "isEnabled this now n = Some False"
    if "case dependencies cfg of None \<Rightarrow> True
           | Some deps \<Rightarrow> list_all (\<lambda>d. isEnabled this now d = Some True) deps"
    using assms(1,2) s that
    by (subst isEnabled.simps)
      (auto simp: allDependenciesEnabled_True_iff [symmetric] split: option.splits)
  from 1 2 show ?thesis by blast
qed

theorem rollout_needs_identity_witness:
  "currentUserId (updateFlag ''NEW_DASHBOARD_UI'' (onlyEnabled True) watched) = None \<and>
   map_option rolloutPercentage
     (map_of (flags (updateFlag ''NEW_DASHBOARD_UI'' (onlyEnabled True) watched)) ''NEW_DASHBOARD_UI'')
     = Some (Some 10) \<and>
   map_option enabled
     (map_of (flags (updateFlag ''NEW_DASHBOARD_UI'' (onlyEnabled True) watched)) ''NEW_DASHBOARD_UI'')
     = Some True \<and>
   isEnabled (updateFlag ''NEW_DASHBOARD_UI'' (onlyEnabled True) watched) 0 ''NEW_DASHBOARD_UI''
     = Some False"
proof -
  let ?m = "updateFlag ''NEW_DASHBOARD_UI'' (onlyEnabled True) watched"
  let ?c = "(flag True ''Redesigned dashboard interface'')\<lparr>rolloutPercentage := Some 10, rollbackOnError := Some True\<rparr>"
  have w: "flags watched = defaultFlags" "userContext watched = None"
    by (simp_all add: watched_def onFlagChange_def newFeatureFlagsManager_def
        initializeDefaultFlags_def emptyManager_def defaultFlags_def)
  have f: "flags ?m = AList.update ''NEW_DASHBOARD_UI'' ?c defaultFlags"
    by (simp add: updateFlag_flags updateFlag_userContext updateFlag_errorCounts updatedConfig_def w
        defaultFlags_def spread_def onlyEnabled_def flag_def)
  have 1: "map_of (flags ?m) ''NEW_DASHBOARD_UI'' = Some ?c"
    by (simp add: f update_conv')
  have 2: "\<not> isCoreFlag ''NEW_DASHBOARD_UI''" by (simp add: isCoreFlag_def)
  have 3: "rolloutPercentage ?c = Some 10" by (simp add: flag_def)
  have 4: "(10::int) < 100" by simp
  have 5: "currentUserId ?m = None"
    by (simp add: currentUserId_def updateFlag_flags updateFlag_userContext updateFlag_errorCounts w)
  have 6: "dependencies ?c = None" by (simp add: flag_def)
  from rollout_needs_identity [OF 1 2 3 4 5, of 0] 1 5 6 show ?thesis
    by (simp add: flag_def)
qed

theorem core_flag_permanence_witness:
  "getEnabledFlags (foldl perform (newFeatureFlagsManager None)
      [UpdateFlag ''BASIC_AUTH'' (onlyEnabled False),
       UpdateFlags [(''DONATION_TRACKING'', False)],
       ReportError ''CHARITY_SEARCH'']) 0 \<noteq> None \<and>
   map_option (\<lambda>fs. (map_of fs ''BASIC_AUTH'', map_of fs ''DONATION_TRACKING'', map_of fs ''CHARITY_SEARCH''))
     (getEnabledFlags (foldl perform (newFeatureFlagsManager None)
      [UpdateFlag ''BASIC_AUTH'' (onlyEnabled False),
       UpdateFlags [(''DONATION_TRACKING'', False)],
       ReportError ''CHARITY_SEARCH'']) 0) = Some (Some True, Some True, Some True)"
proof -
  let ?m = "foldl perform (newFeatureFlagsManager None)
      [UpdateFlag ''BASIC_AUTH'' (onlyEnabled False),
       UpdateFlags [(''DONATION_TRACKING'', False)],
       ReportError ''CHARITY_SEARCH'']"
  have f: "flags ?m = AList.update ''DONATION_TRACKING'' (flag False ''Core donation tracking functionality'')
      (AList.update ''BASIC_AUTH'' (flag False ''User authentication system'') defaultFlags)"
    by (simp add: updateFlag_flags updateFlag_userContext updateFlag_errorCounts updateFlags_def reportError_def updatedConfig_def default_flags
        defaultFlags_def spread_def onlyEnabled_def flag_def)
  have u: "userContext ?m = None"
    by (simp add: updateFlag_flags updateFlag_userContext updateFlag_errorCounts updateFlags_def reportError_def updatedConfig_def default_flags
        default_userContext defaultFlags_def spread_def onlyEnabled_def flag_def)
  have "\<forall>n cfg deps d. map_of (flags ?m) n = Some cfg \<and> dependencies cfg = Some deps \<and> d \<in> set deps
          \<longrightarrow> defaultRank d < defaultRank n"
    unfolding f
    by (auto simp: defaultFlags_def flag_def defaultRank_def split: if_splits)
  with core_flag_permanence [of None "[UpdateFlag ''BASIC_AUTH'' (onlyEnabled False),
       UpdateFlags [(''DONATION_TRACKING'', False)],
       ReportError ''CHARITY_SEARCH'']" 0]
  have "getEnabledFlags ?m 0 \<noteq> None" by blast
  then obtain fs where g: "getEnabledFlags ?m 0 = Some fs" by blast
  have "map_of fs ''BASIC_AUTH'' = Some True \<and> map_of fs ''DONATION_TRACKING'' = Some True \<and>
      map_of fs ''CHARITY_SEARCH'' = Some True"
    using core_flag_permanence [of None "[UpdateFlag ''BASIC_AUTH'' (onlyEnabled False),
       UpdateFlags [(''DONATION_TRACKING'', False)],
       ReportError ''CHARITY_SEARCH'']" 0] g by blast
  then show ?thesis
    by (simp only: g option.map prod.inject simp_thms option.distinct not_False_eq_True)
qed

section \<open>Properties of the service registry\<close>

lemma dependencyGraph_lookup:
  "map_of (dependencyGraph this) tok = map_option serviceDependencies (map_of (services this) tok)"
proof -
  have "map_of (map (\<lambda>(t, r). (t, serviceDependencies r)) xs) tok
      = map_option serviceDependencies (map_of xs tok)" for xs :: "(string \<times> ServiceRegistration) list"
    by (induction xs) auto
  then show ?thesis by (simp add: dependencyGraph_def)
qed

lemma instantiate_registry:
  "instantiate impl arg this = (r, this') \<Longrightarrow>
   services this' = services this \<and> initializationOrder this' = initializationOrder this \<and>
   isShuttingDown this' = isShuttingDown this"
  by (auto simp: instantiate_def Let_def split: if_splits)

lemma storeInstance_graph:
  "dependencyGraph (storeInstance tok i this) = dependencyGraph this \<and>
   initializationOrder (storeInstance tok i this) = initializationOrder this \<and>
   isShuttingDown (storeInstance tok i this) = isShuttingDown this"
proof -
  have "map (\<lambda>(t, r). (t, serviceDependencies r)) (AList.map_entry tok (\<lambda>r. r\<lparr>liveInstance := i\<rparr>) xs)
      = map (\<lambda>(t, r). (t, serviceDependencies r)) xs" for xs :: "(string \<times> ServiceRegistration) list"
    by (induction xs) auto
  then show ?thesis by (simp add: storeInstance_def dependencyGraph_def)
qed


lemma sameShape_refl [simp]: "sameShape this this"
  by (simp add: sameShape_def)

lemma sameShape_trans: "sameShape c b \<Longrightarrow> sameShape b a \<Longrightarrow> sameShape c a"
  by (simp add: sameShape_def)

lemma sameShape_store: "sameShape (storeInstance tok i this) this"
  by (simp add: sameShape_def storeInstance_graph)

lemma sameShape_instantiate: "instantiate impl arg this = (r, this') \<Longrightarrow> sameShape this' this"
  by (auto simp: sameShape_def dependencyGraph_def dest: instantiate_registry)

lemma get_keeps_shape:
  "(\<forall>r this'. get fuel tok this = Some (r, this') \<longrightarrow> sameShape this' this)"
  "(\<forall>r this'. createInstance fuel reg this = Some (r, this') \<longrightarrow> sameShape this' this)"
  "(\<forall>r this'. resolveDependencies fuel toks deps this = Some (r, this') \<longrightarrow> sameShape this' this)"
proof (induction fuel tok this and fuel reg this and fuel toks deps this
    rule: get_createInstance_resolveDependencies.induct)
  case (1 tok this)
  show ?case by simp
next
  case (2 fuel tok this)
  show ?case
  proof (intro allI impI)
    fix r this'
    assume g: "get (Suc fuel) tok this = Some (r, this')"
    show "sameShape this' this"
    proof (cases "map_of (services this) tok")
      case None
      with g show ?thesis by simp
    next
      case (Some reg)
      show ?thesis
      proof (cases "singleton reg \<and> liveInstance reg \<noteq> None")
        case True
        with g Some show ?thesis by auto
      next
        case False
        with g Some obtain r' s where c: "createInstance fuel reg this = Some (r', s)"
          and s: "this' = s \<or> (\<exists>i. this' = storeInstance tok (Some i) s)"
          by (auto split: option.splits sum.splits prod.splits if_splits)
        from 2 [OF Some False] c have "sameShape s this" by blast
        with s show ?thesis
          using sameShape_store sameShape_trans by blast
      qed
    qed
  qed
next
  case (3 fuel reg this)
  show ?case
  proof (intro allI impI)
    fix r this'
    assume g: "createInstance fuel reg this = Some (r, this')"
    then obtain r1 s1 where g1: "resolveDependencies fuel (serviceDependencies reg) [] this = Some (r1, s1)"
      by (auto split: option.splits)
    from 3 g1 have s1: "sameShape s1 this" by blast
    show "sameShape this' this"
    proof (cases r1)
      case (Inl e)
      with g g1 have "this' = s1" by simp
      with s1 show ?thesis by simp
    next
      case (Inr ds)
      obtain i s2 where i: "instantiate (implementation reg) (WithDependencies ds (config reg)) s1 = (i, s2)"
        by (cases "instantiate (implementation reg) (WithDependencies ds (config reg)) s1")
      with g g1 Inr have "this' = s2" by (cases i) auto
      with sameShape_instantiate [OF i] s1 show ?thesis
        using sameShape_trans by blast
    qed
  qed
next
  case (4 fuel deps this)
  show ?case by simp
next
  case (5 fuel depToken rest deps this)
  show ?case
  proof (intro allI impI)
    fix r this'
    assume g: "resolveDependencies fuel (depToken # rest) deps this = Some (r, this')"
    then obtain r1 s1 where g1: "get fuel depToken this = Some (r1, s1)"
      by (auto split: option.splits)
    from 5(1) g1 have s1: "sameShape s1 this" by blast
    show "sameShape this' this"
    proof (cases r1)
      case (Inl e)
      with g g1 have "this' = s1" by simp
      with s1 show ?thesis by simp
    next
      case (Inr i)
      with g g1 have g2: "resolveDependencies fuel rest (AList.update depToken (objectId i) deps) s1
          = Some (r, this')" by simp
      from 5(2) [OF g1 refl Inr] g2 have "sameShape this' s1" by blast
      with s1 show ?thesis using sameShape_trans by blast
    qed
  qed
qed

text \<open>
  C1. Let \<open>tok\<close> be registered as a singleton with a live instance. If the constructor of
  the candidate throws, or its \<^verbatim>\<open>initialize\<close> throws, or its health check does not answer
  true, then \<^verbatim>\<open>replace\<close> throws (for any fuel: no \<^verbatim>\<open>get\<close> is reached) and leaves the
  registrations, the initialization order and the shutdown flag as they were; a following
  \<^verbatim>\<open>get\<close> returns the original instance.
\<close>

theorem replace_atomicity:
  assumes "map_of (services this) tok = Some registration"
    and "liveInstance registration = Some original"
    and "singleton registration"
    and "constructorThrows newImplementation \<or>
         initializeThrows newImplementation
           (BareConfig (case cfg of None \<Rightarrow> config registration | Some c \<Rightarrow> c)) \<or>
         isHealthy newImplementation \<noteq> Some True"
  shows "\<exists>this'. replace fuel tok newImplementation cfg this
            = Some (Inl (registryError ''SERVICE_REPLACEMENT_FAILED'' critical False), this') \<and>
          services this' = services this \<and>
          initializationOrder this' = initializationOrder this \<and>
          isShuttingDown this' = isShuttingDown this \<and>
          get (Suc fuel') tok this' = Some (Inr original, this')"
proof -
  obtain r this1 where i: "instantiate newImplementation
      (BareConfig (case cfg of None \<Rightarrow> config registration | Some c \<Rightarrow> c)) this = (r, this1)"
    by (cases "instantiate newImplementation
      (BareConfig (case cfg of None \<Rightarrow> config registration | Some c \<Rightarrow> c)) this")
  note same = instantiate_registry [OF i]
  show ?thesis
  proof (cases r)
    case None
    with i assms(1) have "replace fuel tok newImplementation cfg this
        = Some (Inl (registryError ''SERVICE_REPLACEMENT_FAILED'' critical False), this1)"
      by (simp add: replace_def)
    moreover have "get (Suc fuel') tok this1 = Some (Inr original, this1)"
      using same assms(1-3) by simp
    ultimately show ?thesis using same by blast
  next
    case (Some testInstance)
    let ?this2 = "this1\<lparr>serviceCalls := serviceCalls this1 @ [IsHealthyCalled (objectId testInstance)]\<rparr>"
    from Some i have "\<not> constructorThrows newImplementation"
      "\<not> initializeThrows newImplementation
           (BareConfig (case cfg of None \<Rightarrow> config registration | Some c \<Rightarrow> c))"
      by (auto simp: instantiate_def Let_def split: if_splits)
    with assms(4) have "isHealthy newImplementation \<noteq> Some True" by blast
    with Some i assms(1) have "replace fuel tok newImplementation cfg this
        = Some (Inl (registryError ''SERVICE_REPLACEMENT_FAILED'' critical False), ?this2)"
      by (simp add: replace_def Let_def)
    moreover have "get (Suc fuel') tok ?this2 = Some (Inr original, ?this2)"
      using same assms(1-3) by simp
    ultimately show ?thesis using same by (intro exI [of _ ?this2]) simp
  qed
qed

lemma resolveDependencies_returns:
  assumes "\<And>d s. d \<in> set toks \<Longrightarrow> sameShape s this0 \<Longrightarrow> \<exists>r s'. get fuel d s = Some (r, s')"
    and "sameShape this this0"
  shows "\<exists>r s'. resolveDependencies fuel toks deps this = Some (r, s')"
  using assms
proof (induction toks arbitrary: deps this)
  case Nil
  show ?case by simp
next
  case (Cons d toks)
  from Cons.prems(1) [of d this] Cons.prems(2)
  obtain r1 s1 where g: "get fuel d this = Some (r1, s1)" by auto
  from get_keeps_shape(1) g Cons.prems(2) have s1: "sameShape s1 this0"
    using sameShape_trans by blast
  show ?case
  proof (cases r1)
    case (Inl e)
    with g show ?thesis by simp
  next
    case (Inr i)
    from Cons.IH [OF _ s1, of "AList.update d (objectId i) deps"] Cons.prems(1)
    obtain r s' where "resolveDependencies fuel toks (AList.update d (objectId i) deps) s1 = Some (r, s')"
      by auto
    with g Inr show ?thesis by simp
  qed
qed

lemma createInstance_returns:
  assumes "\<exists>r s'. resolveDependencies fuel (serviceDependencies reg) [] this = Some (r, s')"
  shows "\<exists>r s'. createInstance fuel reg this = Some (r, s')"
proof -
  from assms obtain r1 s1 where
    g: "resolveDependencies fuel (serviceDependencies reg) [] this = Some (r1, s1)" by blast
  show ?thesis
  proof (cases r1)
    case (Inl e)
    with g show ?thesis by simp
  next
    case (Inr ds)
    obtain i s2 where "instantiate (implementation reg) (WithDependencies ds (config reg)) s1 = (i, s2)"
      by (cases "instantiate (implementation reg) (WithDependencies ds (config reg)) s1")
    with g Inr show ?thesis by (cases i) auto
  qed
qed

lemma get_returns_aux:
  assumes rank: "\<And>t ds d. map_of (dependencyGraph this0) t = Some ds \<Longrightarrow> d \<in> set ds
      \<Longrightarrow> rank d < (rank t :: nat)"
  shows "\<forall>this tok. sameShape this this0 \<longrightarrow> rank tok < fuel \<longrightarrow>
           (\<exists>r s'. get fuel tok this = Some (r, s'))"
proof (induction fuel)
  case 0
  show ?case by simp
next
  case (Suc fuel)
  show ?case
  proof (intro allI impI)
    fix this tok
    assume sh: "sameShape this this0" and rk: "rank tok < Suc fuel"
    show "\<exists>r s'. get (Suc fuel) tok this = Some (r, s')"
    proof (cases "map_of (services this) tok")
      case None
      then show ?thesis by simp
    next
      case (Some reg)
      have "map_of (dependencyGraph this) tok = Some (serviceDependencies reg)"
        by (simp add: dependencyGraph_lookup Some)
      with sh have "map_of (dependencyGraph this0) tok = Some (serviceDependencies reg)"
        by (simp only: sameShape_def)
      then have "\<And>d. d \<in> set (serviceDependencies reg) \<Longrightarrow> rank d < fuel"
        using rank rk by fastforce
      with Suc have "\<And>d s. d \<in> set (serviceDependencies reg) \<Longrightarrow> sameShape s this0
          \<Longrightarrow> \<exists>r s'. get fuel d s = Some (r, s')"
        by blast
      from createInstance_returns [OF resolveDependencies_returns [OF this sh]]
      obtain r s' where "createInstance fuel reg this = Some (r, s')" by blast
      with Some show ?thesis
        by (cases r) auto
    qed
  qed
qed

lemma initializeEach_returns:
  assumes "\<And>d s. d \<in> set toks \<Longrightarrow> sameShape s this0 \<Longrightarrow> \<exists>r s'. get fuel d s = Some (r, s')"
    and "sameShape this this0"
  shows "\<exists>r s'. initializeEach fuel toks this = Some (r, s') \<and> sameShape s' this0"
  using assms
proof (induction toks arbitrary: this)
  case Nil
  then show ?case by simp
next
  case (Cons d toks)
  from Cons.prems(1) [of d this] Cons.prems(2)
  obtain r1 s1 where g: "get fuel d this = Some (r1, s1)" by auto
  from get_keeps_shape(1) g Cons.prems(2) have s1: "sameShape s1 this0"
    using sameShape_trans by blast
  from Cons.IH [OF _ s1] Cons.prems(1)
  obtain r s' where i: "initializeEach fuel toks s1 = Some (r, s')" "sameShape s' this0" by auto
  show ?case
  proof (cases r1)
    case (Inl e)
    with g i s1 show ?thesis by (cases "isCriticalService d") auto
  next
    case (Inr x)
    with g i show ?thesis by auto
  qed
qed

lemma shutdownEach_calls:
  "services (shutdownEach toks this) = services this \<and>
   initializationOrder (shutdownEach toks this) = initializationOrder this \<and>
   isShuttingDown (shutdownEach toks this) = isShuttingDown this \<and>
   nextObjectId (shutdownEach toks this) = nextObjectId this \<and>
   serviceCalls (shutdownEach toks this)
     = serviceCalls this @ map ShutdownCalled (liveObjectIds this toks)"
proof (induction toks arbitrary: this)
  case Nil
  show ?case by (simp add: liveObjectIds_def)
next
  case (Cons tok toks)
  let ?s = "(case map_of (services this) tok of
          None \<Rightarrow> this
        | Some registration \<Rightarrow>
            (case liveInstance registration of
               None \<Rightarrow> this
             | Some i \<Rightarrow> callShutdown i this))"
  have sv: "services ?s = services this" "initializationOrder ?s = initializationOrder this"
    "isShuttingDown ?s = isShuttingDown this" "nextObjectId ?s = nextObjectId this"
    by (auto simp: callShutdown_def split: option.splits)
  then have l: "liveObjectIds ?s toks = liveObjectIds this toks"
    by (simp add: liveObjectIds_def)
  have c: "serviceCalls ?s @ map ShutdownCalled (liveObjectIds this toks)
      = serviceCalls this @ map ShutdownCalled (liveObjectIds this (tok # toks))"
    by (auto simp: callShutdown_def liveObjectIds_def split: option.splits)
  from Cons [of ?s] sv l c show ?case by simp
qed

lemma shutdown_twice: "shutdown (shutdown this) = shutdown this"
  by (simp add: shutdown_def shutdownEach_calls)

lemma shutdown_calls:
  "\<not> isShuttingDown this \<Longrightarrow>
   serviceCalls (shutdown this)
     = serviceCalls this @ map ShutdownCalled (liveObjectIds this (rev (initializationOrder this)))"
  by (simp add: shutdown_def shutdownEach_calls liveObjectIds_def)

lemma update_absent: "k \<notin> fst ` set al \<Longrightarrow> AList.update k v al = al @ [(k, v)]"
  by (induction al) auto

lemma register_fresh:
  "tok \<notin> fst ` set (services this) \<Longrightarrow>
   register tok impl options this
     = Inr (this\<lparr>services := services this @ [newRegistration (tok, impl, options)]\<rparr>)"
  by (simp add: register_def newRegistration_def update_absent map_of_eq_None_iff)

lemma registerAll_fresh:
  "distinct (map fst regs) \<Longrightarrow> fst ` set regs \<inter> fst ` set (services this) = {} \<Longrightarrow>
   registerAll regs this = Inr (this\<lparr>services := services this @ map newRegistration regs\<rparr>)"
proof (induction regs arbitrary: this)
  case Nil
  show ?case by simp
next
  case (Cons reg regs)
  obtain tok impl options where r: "reg = (tok, impl, options)" by (cases reg)
  from Cons.prems r have f: "tok \<notin> fst ` set (services this)" by auto
  let ?s = "this\<lparr>services := services this @ [newRegistration (tok, impl, options)]\<rparr>"
  have "fst ` set regs \<inter> fst ` set (services ?s) = {}"
    using Cons.prems r by (auto simp: newRegistration_def)
  with Cons.IH [of ?s] Cons.prems have "registerAll regs ?s
      = Inr (?s\<lparr>services := services ?s @ map newRegistration regs\<rparr>)" by simp
  then show ?case by (simp add: r register_fresh [OF f])
qed

lemma visit_independent:
  assumes "list_all (\<lambda>(t, r). serviceDependencies r = []) svcs"
  shows "distinct toks \<Longrightarrow> set toks \<subseteq> fst ` set svcs \<Longrightarrow> set toks \<inter> visited = {} \<Longrightarrow>
    visitEach svcs {} toks (visited, order) = Inr (visited \<union> set toks, order @ toks)"
proof (induction toks arbitrary: visited order)
  case Nil
  show ?case by simp
next
  case (Cons tok toks)
  from Cons.prems obtain r where r: "map_of svcs tok = Some r"
    by (cases "map_of svcs tok") (auto simp: map_of_eq_None_iff)
  with assms have d: "serviceDependencies r = []"
    by (auto simp: list_all_iff dest!: map_of_SomeD)
  from Cons.prems have "tok \<notin> visited" by auto
  with r d have v: "visit svcs {} tok (visited, order) = Inr (insert tok visited, order @ [tok])"
    by simp
  from Cons.prems have "visitEach svcs {} toks (insert tok visited, order @ [tok])
      = Inr (insert tok visited \<union> set toks, (order @ [tok]) @ toks)"
    by (intro Cons.IH) auto
  with v show ?case by simp
qed

lemma independent_order:
  assumes "distinct (map fst (services this))"
    and "list_all (\<lambda>(t, r). serviceDependencies r = []) (services this)"
  shows "resolveDependencyOrder this = Inr (map fst (services this))"
  using visit_independent [OF assms(2), of "map fst (services this)" "{}" "[]"] assms(1)
  by (simp add: resolveDependencyOrder_def)

lemma cyclic_get_diverges:
  "get fuel ''A'' (cyclicRegistry ia ib) = None \<and> get fuel ''B'' (cyclicRegistry ia ib) = None"
proof (induction fuel)
  case 0
  show ?case by simp
next
  case (Suc fuel)
  then show ?case
    by (simp add: cyclicRegistry_def freshRegistration_def newServiceRegistry_def)
qed

text \<open>
  C2 (where the code departs from it). With \<^verbatim>\<open>A\<close> depending on \<^verbatim>\<open>B\<close> and \<^verbatim>\<open>B\<close> on
  \<^verbatim>\<open>A\<close>, whatever the two service classes, \<^verbatim>\<open>initializeAll\<close> fails with the
  circular-dependency error and leaves the registry untouched, but no nesting depth is
  enough for \<^verbatim>\<open>get('A')\<close>: it calls \<^verbatim>\<open>createInstance\<close>, which calls \<^verbatim>\<open>get('B')\<close>, which
  calls \<^verbatim>\<open>get('A')\<close> again, without end.
\<close>

theorem cycle_detection:
  "register ''A'' ia (dependingOn [''B'']) newServiceRegistry
     = Inr (newServiceRegistry\<lparr>services := [(''A'', freshRegistration ''A'' ia [''B''])]\<rparr>) \<and>
   register ''B'' ib (dependingOn [''A''])
       (newServiceRegistry\<lparr>services := [(''A'', freshRegistration ''A'' ia [''B''])]\<rparr>)
     = Inr (cyclicRegistry ia ib) \<and>
   initializeAll fuel (cyclicRegistry ia ib)
     = Some (Inl (registryError ''CIRCULAR_DEPENDENCY'' critical False), cyclicRegistry ia ib) \<and>
   get fuel ''A'' (cyclicRegistry ia ib) = None"
proof -
  have 1: "register ''A'' ia (dependingOn [''B'']) newServiceRegistry
     = Inr (newServiceRegistry\<lparr>services := [(''A'', freshRegistration ''A'' ia [''B''])]\<rparr>)"
    by (simp add: register_def newServiceRegistry_def dependingOn_def freshRegistration_def)
  have 2: "register ''B'' ib (dependingOn [''A''])
       (newServiceRegistry\<lparr>services := [(''A'', freshRegistration ''A'' ia [''B''])]\<rparr>)
     = Inr (cyclicRegistry ia ib)"
    by (simp add: register_def newServiceRegistry_def dependingOn_def freshRegistration_def
        cyclicRegistry_def)
  have "resolveDependencyOrder (cyclicRegistry ia ib)
      = Inl (registryError ''CIRCULAR_DEPENDENCY'' critical False)"
    by (simp add: resolveDependencyOrder_def cyclicRegistry_def newServiceRegistry_def
        freshRegistration_def)
  then have 3: "initializeAll fuel (cyclicRegistry ia ib)
     = Some (Inl (registryError ''CIRCULAR_DEPENDENCY'' critical False), cyclicRegistry ia ib)"
    by (simp add: initializeAll_def)
  from 1 2 3 cyclic_get_diverges [of fuel ia ib] show ?thesis by simp
qed

lemma chain_orderings:
  "set (orderings [x, y, z]) = {[x, y, z], [y, x, z], [y, z, x], [x, z, y], [z, x, y], [z, y, x]}"
  by auto

lemma chain_order:
  assumes d: "distinct [a, b, c]"
    and deps: "serviceDependencies ra = []" "serviceDependencies rb = [a]" "serviceDependencies rc = [b]"
    and p: "svcs \<in> set (orderings [(a, ra), (b, rb), (c, rc)])"
  shows "visitEach svcs {} (map fst svcs) ({}, []) = Inr ({a, b, c}, [a, b, c])"
proof -
  from d have ne: "a \<noteq> b" "a \<noteq> c" "b \<noteq> c" "b \<noteq> a" "c \<noteq> a" "c \<noteq> b" by auto
  from p have "svcs = [(a, ra), (b, rb), (c, rc)] \<or> svcs = [(b, rb), (a, ra), (c, rc)] \<or>
      svcs = [(b, rb), (c, rc), (a, ra)] \<or> svcs = [(a, ra), (c, rc), (b, rb)] \<or>
      svcs = [(c, rc), (a, ra), (b, rb)] \<or> svcs = [(c, rc), (b, rb), (a, ra)]"
    unfolding chain_orderings by blast
  then show ?thesis
    using ne deps by (elim disjE) (simp_all add: insert_commute)
qed

lemma chain_rank:
  assumes d: "distinct [a, b, c]"
    and deps: "serviceDependencies ra = []" "serviceDependencies rb = [a]" "serviceDependencies rc = [b]"
    and p: "services this \<in> set (orderings [(a, ra), (b, rb), (c, rc)])"
    and m: "map_of (dependencyGraph this) t = Some ds" and i: "x \<in> set ds"
  shows "chainRank b c x < chainRank b c t"
proof -
  from d have ne: "a \<noteq> b" "a \<noteq> c" "b \<noteq> c" "b \<noteq> a" "c \<noteq> a" "c \<noteq> b" by auto
  from p have "services this = [(a, ra), (b, rb), (c, rc)] \<or> services this = [(b, rb), (a, ra), (c, rc)] \<or>
      services this = [(b, rb), (c, rc), (a, ra)] \<or> services this = [(a, ra), (c, rc), (b, rb)] \<or>
      services this = [(c, rc), (a, ra), (b, rb)] \<or> services this = [(c, rc), (b, rb), (a, ra)]"
    unfolding chain_orderings by blast
  then have "map_of (dependencyGraph this) t =
      (if t = a then Some [] else if t = b then Some [a] else if t = c then Some [b] else None)"
    using ne deps by (elim disjE) (simp_all add: dependencyGraph_lookup)
  with m i ne show ?thesis
    by (auto simp: chainRank_def split: if_splits)
qed


text \<open>
  C6. Register \<open>a\<close> without dependencies, \<open>b\<close> depending on \<open>a\<close> and \<open>c\<close>
  depending on \<open>b\<close>, in any of the six orders and with any service classes and
  options. Then the resolved order is \<open>a, b, c\<close>; \<^verbatim>\<open>initializeAll\<close> returns (three
  levels of nesting are enough) and records that order; a following \<^verbatim>\<open>shutdown\<close> calls
  \<^verbatim>\<open>shutdown\<close> on exactly the live instances, in the order \<open>c, b, a\<close>; and a second
  \<^verbatim>\<open>shutdown\<close> changes nothing. In a registry whose services have no dependencies at
  all, the resolved order is the registration order.
\<close>

theorem registry_order_and_shutdown:
  assumes "distinct [a, b, c]"
    and "regs \<in> set (orderings [(a, ia, oa\<lparr>opt_dependencies := Some []\<rparr>),
                                  (b, ib, ob\<lparr>opt_dependencies := Some [a]\<rparr>),
                                  (c, ic, oc\<lparr>opt_dependencies := Some [b]\<rparr>)])"
  shows "(\<exists>this0 r this1.
           registerAll regs newServiceRegistry = Inr this0 \<and>
           resolveDependencyOrder this0 = Inr [a, b, c] \<and>
           initializeAll (3 + fuel) this0 = Some (r, this1) \<and>
           initializationOrder this1 = [a, b, c] \<and>
           serviceCalls (shutdown this1)
             = serviceCalls this1 @ map ShutdownCalled (liveObjectIds this1 [c, b, a]) \<and>
           shutdown (shutdown this1) = shutdown this1) \<and>
         (distinct (map fst (services other)) \<and>
          list_all (\<lambda>(t, r). serviceDependencies r = []) (services other)
            \<longrightarrow> resolveDependencyOrder other = Inr (map fst (services other)))"
proof -
  let ?xa = "(a, ia, oa\<lparr>opt_dependencies := Some []\<rparr>)"
  let ?xb = "(b, ib, ob\<lparr>opt_dependencies := Some [a]\<rparr>)"
  let ?xc = "(c, ic, oc\<lparr>opt_dependencies := Some [b]\<rparr>)"
  let ?ra = "snd (newRegistration ?xa)"
  let ?rb = "snd (newRegistration ?xb)"
  let ?rc = "snd (newRegistration ?xc)"
  let ?registered = "newServiceRegistry\<lparr>services := map newRegistration regs\<rparr>"
  let ?started = "?registered\<lparr>initializationOrder := [a, b, c]\<rparr>"
  from assms(1) have ne: "a \<noteq> b" "a \<noteq> c" "b \<noteq> c" by auto
  from assms(2) have cases: "regs = [?xa, ?xb, ?xc] \<or> regs = [?xb, ?xa, ?xc] \<or>
      regs = [?xb, ?xc, ?xa] \<or> regs = [?xa, ?xc, ?xb] \<or>
      regs = [?xc, ?xa, ?xb] \<or> regs = [?xc, ?xb, ?xa]"
    unfolding chain_orderings by blast
  then have dist: "distinct (map fst regs)"
    using ne by (elim disjE) auto
  from cases have perm: "map newRegistration regs \<in> set (orderings [(a, ?ra), (b, ?rb), (c, ?rc)])"
    unfolding chain_orderings by (elim disjE) (simp_all add: newRegistration_def)
  have deps: "serviceDependencies ?ra = []" "serviceDependencies ?rb = [a]"
    "serviceDependencies ?rc = [b]"
    by (simp_all add: newRegistration_def)
  have reg: "registerAll regs newServiceRegistry = Inr ?registered"
    using registerAll_fresh [OF dist, of newServiceRegistry]
    by (simp add: newServiceRegistry_def)
  have order: "resolveDependencyOrder ?registered = Inr [a, b, c]"
    using chain_order [OF assms(1) deps perm] by (simp add: resolveDependencyOrder_def)
  have rank: "chainRank b c x < chainRank b c t"
    if "map_of (dependencyGraph ?started) t = Some ds" "x \<in> set ds" for t ds x
    using chain_rank [OF assms(1) deps, of ?started t ds x] perm that by simp
  have gets: "\<exists>r s'. get (3 + fuel) tok s = Some (r, s')" if "sameShape s ?started" for tok s
  proof -
    have "chainRank b c tok < 3 + fuel" by (simp add: chainRank_def)
    with get_returns_aux [of ?started "chainRank b c" "3 + fuel"] rank that
    show ?thesis by blast
  qed
  from initializeEach_returns [of "[a, b, c]" ?started "3 + fuel" ?started] gets
  obtain r this1 where
    ie: "initializeEach (3 + fuel) [a, b, c] ?started = Some (r, this1)"
    and sh: "sameShape this1 ?started"
    by auto
  from ie order have ia: "initializeAll (3 + fuel) ?registered = Some (r, this1)"
    by (simp add: initializeAll_def)
  from sh have io: "initializationOrder this1 = [a, b, c]" and ns: "\<not> isShuttingDown this1"
    by (simp_all add: sameShape_def newServiceRegistry_def)
  from shutdown_calls [OF ns] io
  have sc: "serviceCalls (shutdown this1)
      = serviceCalls this1 @ map ShutdownCalled (liveObjectIds this1 [c, b, a])" by simp
  from reg order ia io sc shutdown_twice [of this1]
  have "\<exists>this0 r this1.
           registerAll regs newServiceRegistry = Inr this0 \<and>
           resolveDependencyOrder this0 = Inr [a, b, c] \<and>
           initializeAll (3 + fuel) this0 = Some (r, this1) \<and>
           initializationOrder this1 = [a, b, c] \<and>
           serviceCalls (shutdown this1)
             = serviceCalls this1 @ map ShutdownCalled (liveObjectIds this1 [c, b, a]) \<and>
           shutdown (shutdown this1) = shutdown this1"
    by blast
  with independent_order [of other] show ?thesis by blast
qed

theorem replace_atomicity_witness:
  "register ''AUTH'' (steady ''Auth'') (dependingOn []) newServiceRegistry
     = Inr (newServiceRegistry\<lparr>services := [(''AUTH'', freshRegistration ''AUTH'' (steady ''Auth'') [])]\<rparr>) \<and>
   get 1 ''AUTH'' (newServiceRegistry\<lparr>services := [(''AUTH'', freshRegistration ''AUTH'' (steady ''Auth'') [])]\<rparr>)
     = Some (Inr \<lparr>objectId = 0, madeBy = steady ''Auth''\<rparr>, authReady) \<and>
   (\<exists>this'. replace 1 ''AUTH'' (sick ''NewAuth'') None authReady
        = Some (Inl (registryError ''SERVICE_REPLACEMENT_FAILED'' critical False), this') \<and>
      services this' = services authReady \<and>
      get 1 ''AUTH'' this' = Some (Inr \<lparr>objectId = 0, madeBy = steady ''Auth''\<rparr>, this'))"
proof -
  let ?reg = "(freshRegistration ''AUTH'' (steady ''Auth'') [])
                      \<lparr>liveInstance := Some \<lparr>objectId = 0, madeBy = steady ''Auth''\<rparr>\<rparr>"
  have 1: "map_of (services authReady) ''AUTH'' = Some ?reg"
    by (simp add: authReady_def newServiceRegistry_def)
  have 2: "liveInstance ?reg = Some \<lparr>objectId = 0, madeBy = steady ''Auth''\<rparr>" by simp
  have 3: "singleton ?reg" by (simp add: freshRegistration_def)
  have 4: "constructorThrows (sick ''NewAuth'') \<or>
         initializeThrows (sick ''NewAuth'')
           (BareConfig (case None of None \<Rightarrow> config ?reg | Some c \<Rightarrow> c)) \<or>
         isHealthy (sick ''NewAuth'') \<noteq> Some True"
    by (simp add: sick_def steady_def)
  have a: "register ''AUTH'' (steady ''Auth'') (dependingOn []) newServiceRegistry
     = Inr (newServiceRegistry\<lparr>services := [(''AUTH'', freshRegistration ''AUTH'' (steady ''Auth'') [])]\<rparr>)"
    by (simp add: register_def newServiceRegistry_def dependingOn_def freshRegistration_def)
  have b: "get 1 ''AUTH'' (newServiceRegistry\<lparr>services := [(''AUTH'', freshRegistration ''AUTH'' (steady ''Auth'') [])]\<rparr>)
     = Some (Inr \<lparr>objectId = 0, madeBy = steady ''Auth''\<rparr>, authReady)"
    by (simp add: newServiceRegistry_def freshRegistration_def authReady_def instantiate_def
        steady_def storeInstance_def Let_def)
  from replace_atomicity [OF 1 2 3 4, of 1 0] a b show ?thesis
    by (simp only: One_nat_def) blast
qed

theorem registry_order_and_shutdown_witness:
  "(\<exists>this0 r this1.
     registerAll [(''C'', steady ''Reports'', dependingOn [''B'']),
                  (''A'', steady ''Auth'', dependingOn []),
                  (''B'', steady ''Donations'', dependingOn [''A''])] newServiceRegistry = Inr this0 \<and>
     map fst (services this0) = [''C'', ''A'', ''B''] \<and>
     resolveDependencyOrder this0 = Inr [''A'', ''B'', ''C''] \<and>
     initializeAll 3 this0 = Some (r, this1) \<and>
     initializationOrder this1 = [''A'', ''B'', ''C''] \<and>
     liveObjectIds this1 [''C'', ''B'', ''A''] = [2, 1, 0] \<and>
     serviceCalls (shutdown this1)
       = serviceCalls this1 @ [ShutdownCalled 2, ShutdownCalled 1, ShutdownCalled 0] \<and>
     shutdown (shutdown this1) = shutdown this1) \<and>
   resolveDependencyOrder
     (newServiceRegistry\<lparr>services := [(''Y'', freshRegistration ''Y'' (steady ''Y'') []),
                                      (''X'', freshRegistration ''X'' (steady ''X'') [])]\<rparr>)
     = Inr [''Y'', ''X'']"
proof -
  let ?regs = "[(''C'', steady ''Reports'', dependingOn [''B'']),
                  (''A'', steady ''Auth'', dependingOn []),
                  (''B'', steady ''Donations'', dependingOn [''A''])]"
  have d: "distinct [''A'', ''B'', ''C'']" by simp
  have o: "?regs \<in> set (orderings
       [(''A'', steady ''Auth'', (dependingOn [])\<lparr>opt_dependencies := Some []\<rparr>),
        (''B'', steady ''Donations'', (dependingOn [''A''])\<lparr>opt_dependencies := Some [''A'']\<rparr>),
        (''C'', steady ''Reports'', (dependingOn [''B''])\<lparr>opt_dependencies := Some [''B'']\<rparr>)])"
    by (simp add: dependingOn_def)
  from registry_order_and_shutdown [OF d o, of 0, THEN conjunct1]
  obtain this0 r this1 where
    w: "registerAll ?regs newServiceRegistry = Inr this0"
      "resolveDependencyOrder this0 = Inr [''A'', ''B'', ''C'']"
      "initializeAll 3 this0 = Some (r, this1)"
      "initializationOrder this1 = [''A'', ''B'', ''C'']"
      "serviceCalls (shutdown this1)
         = serviceCalls this1 @ map ShutdownCalled (liveObjectIds this1 [''C'', ''B'', ''A''])"
      "shutdown (shutdown this1) = shutdown this1"
    by auto
  have this0: "this0 = newServiceRegistry\<lparr>services := map newRegistration ?regs\<rparr>"
    using w(1) by (simp add: register_def newServiceRegistry_def newRegistration_def)
  have k: "map fst (services this0) = [''C'', ''A'', ''B'']"
    by (simp add: this0 newRegistration_def)
  have "liveObjectIds this1 [''C'', ''B'', ''A''] = [2, 1, 0]"
    using w(3) unfolding this0
    by (auto simp: initializeAll_def resolveDependencyOrder_def newServiceRegistry_def
        newRegistration_def dependingOn_def numeral_3_eq_3 instantiate_def steady_def
        storeInstance_def Let_def liveObjectIds_def List.map_filter_simps split: if_splits)
  with w k have chain: "\<exists>this0 r this1.
     registerAll ?regs newServiceRegistry = Inr this0 \<and>
     map fst (services this0) = [''C'', ''A'', ''B''] \<and>
     resolveDependencyOrder this0 = Inr [''A'', ''B'', ''C''] \<and>
     initializeAll 3 this0 = Some (r, this1) \<and>
     initializationOrder this1 = [''A'', ''B'', ''C''] \<and>
     liveObjectIds this1 [''C'', ''B'', ''A''] = [2, 1, 0] \<and>
     serviceCalls (shutdown this1)
       = serviceCalls this1 @ [ShutdownCalled 2, ShutdownCalled 1, ShutdownCalled 0] \<and>
     shutdown (shutdown this1) = shutdown this1"
    by (intro exI [of _ this0] exI [of _ r] exI [of _ this1]) simp
  let ?xy = "newServiceRegistry\<lparr>services := [(''Y'', freshRegistration ''Y'' (steady ''Y'') []),
                                      (''X'', freshRegistration ''X'' (steady ''X'') [])]\<rparr>"
  have "distinct (map fst (services ?xy)) \<and>
        list_all (\<lambda>(t, r). serviceDependencies r = []) (services ?xy)"
    by (simp add: freshRegistration_def)
  with registry_order_and_shutdown [OF d o, of 0 ?xy, THEN conjunct2]
  have "resolveDependencyOrder ?xy = Inr [''Y'', ''X'']" by simp
  with chain show ?thesis by blast
qed

section \<open>Properties of the module fault isolator\<close>

lemma invariant_init: "boundaryInvariant newModularErrorBoundary"
  by (simp add: boundaryInvariant_def newModularErrorBoundary_def)

lemma invariant_step:
  assumes "boundaryInvariant this" and "step props this ev = Some this'"
  shows "boundaryInvariant this'"
proof (cases ev)
  case (ChildThrows thrown now)
  with assms show ?thesis
    by (auto simp: boundaryInvariant_def render_def componentDidCatch_def attemptRecovery_def
        Let_def split: if_splits option.splits)
next
  case RecoveryTimerFires
  with assms show ?thesis
    by (auto simp: boundaryInvariant_def recoveryCallback_def startErrorCooldown_def
        split: list.splits if_splits)
next
  case CooldownTimerFires
  with assms show ?thesis
    by (auto simp: boundaryInvariant_def cooldownCallback_def split: nat.splits if_splits)
next
  case ManualReset
  with assms show ?thesis
    by (auto simp: boundaryInvariant_def render_def resetError_def startErrorCooldown_def
        split: if_splits option.splits)
qed

lemma invariant_run:
  "boundaryInvariant this \<Longrightarrow> run props this evs = Some this' \<Longrightarrow> boundaryInvariant this'"
proof (induction evs arbitrary: this)
  case Nil
  then show ?case by simp
next
  case (Cons ev evs)
  from Cons.prems(2) obtain s where s: "step props this ev = Some s" "run props s evs = Some this'"
    by (auto split: option.splits)
  from Cons.IH [OF invariant_step [OF Cons.prems(1) s(1)] s(2)] show ?case .
qed

lemma run_append:
  "run props this (xs @ ys) = (case run props this xs of None \<Rightarrow> None | Some s \<Rightarrow> run props s ys)"
  by (induction xs arbitrary: this) (auto split: option.splits)

lemma fallback_canRetry: "fallbackMode (state this) \<Longrightarrow> \<not> canRetry props this"
  by (simp add: canRetry_def split: option.splits)

lemma fallback_step:
  assumes "boundaryInvariant this" and "fallbackMode (state this)" and "ev \<noteq> ManualReset"
    and "step props this ev = Some this'"
  shows "fallbackMode (state this')"
proof (cases ev)
  case (ChildThrows thrown now)
  with assms show ?thesis
    by (auto simp: boundaryInvariant_def render_def split: if_splits option.splits)
next
  case RecoveryTimerFires
  with assms show ?thesis
    by (auto simp: boundaryInvariant_def split: list.splits if_splits)
next
  case CooldownTimerFires
  with assms show ?thesis
    by (auto simp: cooldownCallback_def split: nat.splits)
next
  case ManualReset
  with assms show ?thesis by simp
qed

lemma fallback_run:
  "boundaryInvariant this \<Longrightarrow> fallbackMode (state this) \<Longrightarrow> ManualReset \<notin> set evs \<Longrightarrow>
   run props this evs = Some this' \<Longrightarrow> fallbackMode (state this') \<and> boundaryInvariant this'"
proof (induction evs arbitrary: this)
  case Nil
  then show ?case by simp
next
  case (Cons ev evs)
  from Cons.prems(4) obtain s where s: "step props this ev = Some s" "run props s evs = Some this'"
    by (auto split: option.splits)
  from Cons.prems(3) have ne: "ev \<noteq> ManualReset" "ManualReset \<notin> set evs" by auto
  from Cons.IH [OF invariant_step [OF Cons.prems(1) s(1)]
      fallback_step [OF Cons.prems(1,2) ne(1) s(1)] ne(2) s(2)]
  show ?case .
qed

lemma degraded_facts:
  "boundaryInvariant this \<Longrightarrow> fallbackMode (state this) \<Longrightarrow>
   hasError (state this) \<and> recoveryTimers this = [] \<and> \<not> isRecovering (state this)"
  by (auto simp: boundaryInvariant_def split: if_splits)

text \<open>
  C9. Take a boundary with recovery enabled and \<^verbatim>\<open>maxRetries = 3\<close>, in any state it can
  reach from its initial state by faults of its children, timers firing and manual
  resets (a fault needs the children on screen, a manual reset needs a fallback view on
  screen). If the retry count has reached 3, the next recoverable fault puts it in fallback
  mode, where \<^verbatim>\<open>canRetry\<close> is false and no recovery timer is pending. While it is in
  fallback mode, whatever happens short of a manual reset leaves it in fallback mode with
  the error on display, \<^verbatim>\<open>canRetry\<close> false and no recovery pending or under way. A manual
  reset clears fallback mode and the error and starts one more cooldown timer.
\<close>

theorem isolator_retry_ceiling:
  assumes "enableRecovery props = Some True" and "maxRetries props = Some 3"
    and "run props newModularErrorBoundary evs = Some this"
  shows "(\<forall>thrown now this'.
            3 \<le> retryCount (state this) \<and> recoverable (convertToServiceError props thrown) \<and>
            step props this (ChildThrows thrown now) = Some this'
            \<longrightarrow> fallbackMode (state this') \<and> \<not> canRetry props this' \<and>
                recoveryTimers this' = [] \<and> \<not> isRecovering (state this')) \<and>
         (fallbackMode (state this)
            \<longrightarrow> \<not> canRetry props this \<and> hasError (state this) \<and> recoveryTimers this = [] \<and>
                (\<forall>evs' this'. ManualReset \<notin> set evs' \<and> run props this evs' = Some this'
                   \<longrightarrow> fallbackMode (state this') \<and> hasError (state this') \<and>
                       \<not> canRetry props this' \<and> recoveryTimers this' = [] \<and>
                       \<not> isRecovering (state this'))) \<and>
         (\<forall>this'. step props this ManualReset = Some this'
            \<longrightarrow> \<not> fallbackMode (state this') \<and> \<not> hasError (state this') \<and>
                cooldownTimers this' = Suc (cooldownTimers this))"
proof -
  have inv: "boundaryInvariant this"
    using invariant_run [OF invariant_init assms(3)] .
  have mx: "maxRetriesOf props = 3" using assms(2) by (simp add: maxRetriesOf_def)
  have enter: "fallbackMode (state this') \<and> \<not> canRetry props this' \<and>
                recoveryTimers this' = [] \<and> \<not> isRecovering (state this')"
    if "3 \<le> retryCount (state this)" "recoverable (convertToServiceError props thrown)"
      "step props this (ChildThrows thrown now) = Some this'" for thrown now this'
  proof -
    from that(3) have c: "render props this = Children"
      and t: "this' = componentDidCatch props thrown now this"
      by (auto split: if_splits)
    from c have "\<not> isRecovering (state this)" by (auto simp: render_def split: if_splits)
    with inv have "recoveryTimers this = []" by (auto simp: boundaryInvariant_def split: if_splits)
    with t that(1,2) assms(1) mx have "fallbackMode (state this')" "recoveryTimers this' = []"
      "\<not> isRecovering (state this')"
      by (simp_all add: componentDidCatch_def attemptRecovery_def Let_def)
    then show ?thesis using fallback_canRetry by blast
  qed
  have stay: "fallbackMode (state this') \<and> hasError (state this') \<and>
       \<not> canRetry props this' \<and> recoveryTimers this' = [] \<and> \<not> isRecovering (state this')"
    if "fallbackMode (state this)" "ManualReset \<notin> set evs'" "run props this evs' = Some this'"
    for evs' this'
    using fallback_run [OF inv that] degraded_facts fallback_canRetry by blast
  have reset: "\<not> fallbackMode (state this') \<and> \<not> hasError (state this') \<and>
                cooldownTimers this' = Suc (cooldownTimers this)"
    if "step props this ManualReset = Some this'" for this'
    using that by (auto simp: resetError_def startErrorCooldown_def split: if_splits)
  from enter stay reset degraded_facts [OF inv] fallback_canRetry show ?thesis by blast
qed

theorem isolator_retry_ceiling_witness:
  "run donationProps newModularErrorBoundary threeRecoveries = Some exhausted \<and>
   retryCount (state exhausted) = 3 \<and>
   step donationProps exhausted (ChildThrows ThrownError 7000) = Some degraded \<and>
   fallbackMode (state degraded) \<and> \<not> canRetry donationProps degraded \<and>
   recoveryTimers degraded = [] \<and>
   run donationProps degraded [CooldownTimerFires, CooldownTimerFires, CooldownTimerFires]
     = Some (degraded\<lparr>state := (state degraded)\<lparr>retryCount := 0\<rparr>, cooldownTimers := 0\<rparr>) \<and>
   fallbackMode (state (degraded\<lparr>state := (state degraded)\<lparr>retryCount := 0\<rparr>, cooldownTimers := 0\<rparr>)) \<and>
   step donationProps degraded (ChildThrows ThrownError 8000) = None \<and>
   step donationProps degraded RecoveryTimerFires = None \<and>
   step donationProps degraded ManualReset = Some (resetError degraded) \<and>
   \<not> fallbackMode (state (resetError degraded)) \<and>
   cooldownTimers (resetError degraded) = 4"
proof -
  have e: "enableRecovery donationProps = Some True" and m: "maxRetries donationProps = Some 3"
    by (simp_all add: donationProps_def)
  have r1: "run donationProps newModularErrorBoundary threeRecoveries = Some exhausted"
    by (simp add: threeRecoveries_def donationProps_def newModularErrorBoundary_def exhausted_def
        render_def componentDidCatch_def convertToServiceError_def attemptRecovery_def
        maxRetriesOf_def recoveryCallback_def startErrorCooldown_def Let_def)
  have s1: "step donationProps exhausted (ChildThrows ThrownError 7000) = Some degraded"
    by (simp add: donationProps_def exhausted_def degraded_def componentError_def
        render_def componentDidCatch_def convertToServiceError_def attemptRecovery_def
        maxRetriesOf_def Let_def)
  have r2: "run donationProps newModularErrorBoundary (threeRecoveries @ [ChildThrows ThrownError 7000])
      = Some degraded"
    using r1 s1 by (simp add: run_append)
  have c: "run donationProps degraded [CooldownTimerFires, CooldownTimerFires, CooldownTimerFires]
     = Some (degraded\<lparr>state := (state degraded)\<lparr>retryCount := 0\<rparr>, cooldownTimers := 0\<rparr>)"
    by (simp add: degraded_def cooldownCallback_def numeral_3_eq_3)
  have rc: "recoverable (convertToServiceError donationProps ThrownError)"
    by (simp add: convertToServiceError_def)
  have x: "3 \<le> retryCount (state exhausted)" by (simp add: exhausted_def)
  have n: "ManualReset \<notin> set [CooldownTimerFires, CooldownTimerFires, CooldownTimerFires]" by simp
  have mr: "step donationProps degraded ManualReset = Some (resetError degraded)"
    by (simp add: donationProps_def degraded_def render_def)
  have none: "step donationProps degraded (ChildThrows ThrownError 8000) = None"
    "step donationProps degraded RecoveryTimerFires = None"
    by (simp_all add: donationProps_def degraded_def render_def)
  from isolator_retry_ceiling [OF e m r1] x rc s1
  have a: "fallbackMode (state degraded) \<and> \<not> canRetry donationProps degraded \<and>
      recoveryTimers degraded = []" by blast
  from isolator_retry_ceiling [OF e m r2] a n c mr
  have b: "fallbackMode (state (degraded\<lparr>state := (state degraded)\<lparr>retryCount := 0\<rparr>, cooldownTimers := 0\<rparr>))"
    "\<not> fallbackMode (state (resetError degraded))"
    "cooldownTimers (resetError degraded) = Suc (cooldownTimers degraded)"
    by blast+
  have "cooldownTimers degraded = 3" by (simp add: degraded_def)
  with b(3) have b3: "cooldownTimers (resetError degraded) = 4" by simp
  have x3: "retryCount (state exhausted) = 3" by (simp add: exhausted_def)
  from r1 x3 s1 a c b(1) none mr b(2) b3 show ?thesis by blast
qed

end
